theory Spec2Isabelle
  imports Complex_Main "HOL-Library.Multiset"
begin

section \<open>Common conventions\<close>

text \<open>
  The development embeds the geometric and packing kernels of \<^verbatim>\<open>src/cpp/utils.cpp\<close> and
  \<^verbatim>\<open>src/cpp/coefficients.cpp\<close>. Every way in which the C++ can leave its defined
  behaviour is a value of \<open>error\<close>: a failed \<^verbatim>\<open>assert\<close>, a \<^verbatim>\<open>throw\<close>, an index outside
  a container, an allocation whose size is a negative number converted to \<^verbatim>\<open>size_t\<close>, an
  integer division by zero, an assignment between views of different extents, and a
  signed integer overflow. In \<^verbatim>\<open>sort_cells\<close> and \<^verbatim>\<open>update_geometry\<close> the narrowing conversion of
  a size and the sums and products of \<^verbatim>\<open>std::int32_t\<close> and \<^verbatim>\<open>int\<close> values that are not
  bounded by a loop condition are carried out in 32 bits; all other index arithmetic is
  on unbounded integers.
\<close>

datatype error =
    Out_of_bounds
  | Assertion_failed
  | Runtime_error string
  | Length_error
  | Division_by_zero
  | Shape_mismatch
  | Integer_overflow

text \<open>Sequencing of fallible steps: the first error ends the computation.\<close>

definition and_then :: "error + 'a \<Rightarrow> ('a \<Rightarrow> error + 'b) \<Rightarrow> error + 'b" where
  "and_then m f = (case m of Inl e \<Rightarrow> Inl e | Inr x \<Rightarrow> f x)"

text \<open>
  A counted \<^verbatim>\<open>for\<close> loop runs its body once per index of the list, in order, threading
  the loop state; an error in the body leaves the loop.
\<close>

fun for_loop :: "nat list \<Rightarrow> (nat \<Rightarrow> 's \<Rightarrow> error + 's) \<Rightarrow> 's \<Rightarrow> error + 's" where
  "for_loop [] body s = Inr s"
| "for_loop (i # ns) body s =
     (case body i s of Inl e \<Rightarrow> Inl e | Inr s' \<Rightarrow> for_loop ns body s')"

text \<open>Checked element access of \<^verbatim>\<open>std::vector\<close> and \<^verbatim>\<open>span\<close> with a signed index.\<close>

definition get :: "'a list \<Rightarrow> int \<Rightarrow> error + 'a" where
  "get xs i = (if 0 \<le> i \<and> i < int (length xs) then Inr (xs ! nat i) else Inl Out_of_bounds)"

definition put :: "'a list \<Rightarrow> int \<Rightarrow> 'a \<Rightarrow> error + 'a list" where
  "put xs i v =
     (if 0 \<le> i \<and> i < int (length xs) then Inr (xs[nat i := v]) else Inl Out_of_bounds)"

text \<open>The conversion \<^verbatim>\<open>(std::int32_t) n\<close> of a \<^verbatim>\<open>size_t\<close>: two's complement wrap-around.\<close>

definition int32_cast :: "nat \<Rightarrow> int" where
  "int32_cast n = (int n + 2 ^ 31) mod 2 ^ 32 - 2 ^ 31"

text \<open>
  Sum and product of two 32-bit signed integers (\<^verbatim>\<open>std::int32_t\<close>, \<^verbatim>\<open>int\<close>): a result outside
  \<open>[-2^31, 2^31)\<close> is an overflow, which the language leaves undefined.
\<close>

definition int32_range :: "int \<Rightarrow> error + int" where
  "int32_range v = (if - (2 ^ 31) \<le> v \<and> v < 2 ^ 31 then Inr v else Inl Integer_overflow)"

definition int32_add :: "int \<Rightarrow> int \<Rightarrow> error + int" where
  "int32_add a b = int32_range (a + b)"

definition int32_mul :: "int \<Rightarrow> int \<Rightarrow> error + int" where
  "int32_mul a b = int32_range (a * b)"

section \<open>Batch utilities: \<^verbatim>\<open>sort_cells\<close>\<close>

text \<open>
  Modelled from the spec: \<^verbatim>\<open>dolfinx::argsort_radix\<close> is library code that is not part of
  the sources. The specification asks for a stable sort of the index array by the keys it
  points to; the model is the stable insertion sort of the permutation by the key
  \<open>cells[perm[i]]\<close>.
\<close>

definition argsort_radix :: "int list \<Rightarrow> int list \<Rightarrow> int list" where
  "argsort_radix cells perm = sort_key (\<lambda>i. cells ! nat i) perm"

text \<open>\<^verbatim>\<open>std::iota(perm.begin(), perm.end(), 0)\<close> on a span of \<^verbatim>\<open>std::int32_t\<close>.\<close>

definition iota :: "int list \<Rightarrow> int list" where
  "iota perm = map int32_cast [0..<length perm]"

text \<open>\<^verbatim>\<open>v.resize(n)\<close>: truncate, or pad with value-initialised entries.\<close>

definition resize :: "nat \<Rightarrow> int list \<Rightarrow> int list" where
  "resize n xs = take n xs @ replicate (n - length xs) 0"

text \<open>The body of the first loop: \<^verbatim>\<open>unique_cells[i] = cells[perm[i]]\<close>.\<close>

definition gather_step :: "int list \<Rightarrow> int list \<Rightarrow> nat \<Rightarrow> int list \<Rightarrow> error + int list" where
  "gather_step cells perm i unique_cells =
     and_then (get perm (int i)) (\<lambda>pi.
     and_then (get cells pi) (\<lambda>c.
     put unique_cells (int i) c))"

text \<open>
  The body of the second loop, on the state \<open>(index, offsets)\<close>:
  \<^verbatim>\<open>if (unique_cells[i] != unique_cells[i + 1]) offsets[++index] = i + 1\<close>.
\<close>

definition offsets_step ::
  "int list \<Rightarrow> nat \<Rightarrow> int \<times> int list \<Rightarrow> error + int \<times> int list" where
  "offsets_step unique_cells i s =
     (case s of (index, offsets) \<Rightarrow>
        and_then (get unique_cells (int i)) (\<lambda>a.
        and_then (get unique_cells (int i + 1)) (\<lambda>b.
        if a \<noteq> b
        then and_then (put offsets (index + 1) (int i + 1)) (\<lambda>offsets'.
               Inr (index + 1, offsets'))
        else Inr (index, offsets))))"

text \<open>
  \<^verbatim>\<open>sort_cells(cells, perm)\<close>. The span \<open>perm\<close> is an output: the result is the triple of
  the permutation written into it, the vector \<open>unique_cells\<close> and the vector \<open>offsets\<close>.
  The size \<^verbatim>\<open>num_cells + 1\<close> of \<open>offsets\<close> is a sum of \<^verbatim>\<open>std::int32_t\<close> values and overflows
  when \<open>num_cells\<close> is \<open>2^31 - 1\<close>. The other sums and differences of the function
  (\<^verbatim>\<open>num_cells - 1\<close>, \<^verbatim>\<open>i + 1\<close>, \<^verbatim>\<open>++index\<close>, \<^verbatim>\<open>index + 1\<close>) lie between \<open>-1\<close> and
  \<open>num_cells\<close> and cannot overflow.
\<close>

definition sort_cells :: "int list \<Rightarrow> int list \<Rightarrow> error + int list \<times> int list \<times> int list" where
  "sort_cells cells perm =
     (if length perm \<noteq> length cells then Inl Assertion_failed
      else
        let num_cells = int32_cast (length cells) in
        if num_cells < 0 then Inl Length_error
        else
          let unique_cells0 = replicate (nat num_cells) (0::int) in
          and_then (int32_add num_cells 1) (\<lambda>num_offsets.
          let offsets0 = replicate (nat num_offsets) (0::int);
              perm' = argsort_radix cells (iota perm)
          in
          and_then (for_loop [0..<nat num_cells] (gather_step cells perm') unique_cells0)
            (\<lambda>unique_cells.
          and_then (for_loop [0..<nat (num_cells - 1)] (offsets_step unique_cells) (0, offsets0))
            (\<lambda>(index, offsets).
          and_then (put offsets (index + 1) num_cells)
            (\<lambda>offsets'.
          let unique_cells' = remdups_adj unique_cells
          in Inr (perm', unique_cells', resize (length unique_cells' + 1) offsets'))))))"

text \<open>
  \<open>below u v\<close> is the number of entries of \<open>u\<close> that are smaller than \<open>v\<close>: in the sorted
  array it is the position at which the run of \<open>v\<close> starts.
\<close>

definition below :: "int list \<Rightarrow> int \<Rightarrow> int" where
  "below u v = int (length (filter (\<lambda>x. x < v) u))"

section \<open>Tensors and collaborators\<close>

text \<open>
  In the kernels and the packers \<^verbatim>\<open>PetscScalar\<close> and \<^verbatim>\<open>double\<close> are idealised as real numbers
  (the coordinates that \<^verbatim>\<open>update_geometry\<close> rewrites have a model of their own). A rank-2 \<^verbatim>\<open>xtensor\<close> is
  a list of rows; its \<^verbatim>\<open>shape(0)\<close> is the length of the list. A rank-3 \<^verbatim>\<open>xtensor\<close> with
  one matrix per point is the list of these matrices together with the two trailing
  extents: \<^verbatim>\<open>shape(0)\<close> is the number of slices, \<^verbatim>\<open>shape(1)\<close> is \<open>rows\<close> and
  \<^verbatim>\<open>shape(2)\<close> is \<open>cols\<close>.
\<close>

type_synonym mat = "real list list"

record tensor3 =
  rows :: nat
  cols :: nat
  slices :: "mat list"

text \<open>\<^verbatim>\<open>fill(0)\<close> and \<^verbatim>\<open>std::fill(.., 0.0)\<close> overwrite every entry and keep the shape.\<close>

definition zero_mat :: "mat \<Rightarrow> mat" where
  "zero_mat m = map (map (\<lambda>_. 0)) m"

definition fill_zero :: "tensor3 \<Rightarrow> tensor3" where
  "fill_zero t = t\<lparr>slices := map zero_mat (slices t)\<rparr>"

text \<open>\<^verbatim>\<open>xt::zeros<double>({n, m})\<close>.\<close>

definition zeros2 :: "nat \<Rightarrow> nat \<Rightarrow> mat" where
  "zeros2 n m = replicate n (replicate m 0)"

text \<open>
  \<^verbatim>\<open>xt::view(T, p, xt::all(), xt::all())\<close>, read and written. A slice index outside
  \<^verbatim>\<open>shape(0)\<close> is an access outside the storage.
\<close>

definition view3 :: "tensor3 \<Rightarrow> nat \<Rightarrow> error + mat" where
  "view3 t p = (if p < length (slices t) then Inr (slices t ! p) else Inl Out_of_bounds)"

definition assign3 :: "tensor3 \<Rightarrow> nat \<Rightarrow> mat \<Rightarrow> error + tensor3" where
  "assign3 t p m =
     (if p < length (slices t) then Inr (t\<lparr>slices := (slices t)[p := m]\<rparr>)
      else Inl Out_of_bounds)"

text \<open>
  The coordinate element of the mesh is library code. The model takes it as a record of
  functions: the affinity flag, the tabulation of the reference basis (derivative order
  and points to a rank-4 table indexed by derivative, point, basis function and
  component), the Newton pull-back, and the layout of its degrees of freedom (an opaque
  descriptor that is only compared for equality).
\<close>

type_synonym table4 = "real list list list list"

record coordinate_element =
  is_affine :: bool
  cmap_tabulate :: "nat \<Rightarrow> mat \<Rightarrow> table4"
  pull_back_nonaffine :: "mat \<Rightarrow> mat \<Rightarrow> mat \<Rightarrow> mat"
  create_dof_layout :: "nat list"

text \<open>
  The static kernels of \<^verbatim>\<open>dolfinx::fem::CoordinateElement\<close> and \<^verbatim>\<open>dolfinx::math\<close> are parameters
  as well. A kernel that writes through an output argument takes the old contents of that
  argument and returns the new contents:
  \<^item> \<open>compute_jacobian dphi cell_geometry J\<close> is the new \<open>J\<close>;
  \<^item> \<open>compute_jacobian_inverse J K\<close> is the new \<open>K\<close>;
  \<^item> \<open>pull_back_affine X K x0 x\<close> is the new \<open>X\<close>;
  \<^item> \<open>dot A B C\<close> is the new \<open>C\<close>.
\<close>

record kernels =
  compute_jacobian :: "mat \<Rightarrow> mat \<Rightarrow> mat \<Rightarrow> mat"
  compute_jacobian_inverse :: "mat \<Rightarrow> mat \<Rightarrow> mat"
  compute_jacobian_determinant :: "mat \<Rightarrow> real"
  pull_back_affine :: "mat \<Rightarrow> mat \<Rightarrow> real list \<Rightarrow> mat \<Rightarrow> mat"
  x0 :: "mat \<Rightarrow> real list"
  dot :: "mat \<Rightarrow> mat \<Rightarrow> mat \<Rightarrow> mat"

text \<open>
  The calls made to the coordinate element are recorded in the order in which they
  happen; \<open>Tabulate n k\<close> is a tabulation up to derivative order \<open>n\<close> at \<open>k\<close> points.
\<close>

datatype cmap_call =
    Tabulate nat nat
  | Pull_back_nonaffine
  | Compute_jacobian
  | Compute_jacobian_inverse
  | Compute_jacobian_determinant
  | Pull_back_affine

text \<open>
  \<^verbatim>\<open>xt::view(phi, xt::range(1, tdim + 1), p, xt::all(), 0)\<close>: the first derivatives of the
  reference basis at point \<open>p\<close>, one row per direction. The table comes from the
  tabulation of the library, whose shape contains these indices.
\<close>

definition dphi_view :: "table4 \<Rightarrow> nat \<Rightarrow> nat \<Rightarrow> mat" where
  "dphi_view phi tdim p = map (\<lambda>d. map (\<lambda>b. b ! 0) (d ! p)) (take tdim (drop 1 phi))"

text \<open>\<^verbatim>\<open>xt::view(phi, xt::range(tdim + 1, phi.shape(0)), p, xt::all(), 0)\<close>.\<close>

definition ddphi_view :: "table4 \<Rightarrow> nat \<Rightarrow> nat \<Rightarrow> mat" where
  "ddphi_view phi tdim p =
     map (\<lambda>d. map (\<lambda>b. b ! 0) (d ! p)) (take (length phi - (tdim + 1)) (drop (tdim + 1) phi))"

section \<open>Geometric map engine: \<^verbatim>\<open>pull_back\<close>\<close>

text \<open>The buffers that \<^verbatim>\<open>pull_back\<close> writes, and the calls it has made.\<close>

record pull_back_state =
  pb_J :: tensor3
  pb_K :: tensor3
  pb_detJ :: "real list"
  pb_X :: mat
  pb_calls :: "cmap_call list"

text \<open>
  The body of the affine loop, for a point \<open>p\<close>: slot \<open>p\<close> of \<open>J\<close>, \<open>K\<close> and \<open>detJ\<close>
  receives the contents of slot 0.
\<close>

definition broadcast_step :: "nat \<Rightarrow> pull_back_state \<Rightarrow> error + pull_back_state" where
  "broadcast_step p s =
     and_then (view3 (pb_J s) 0) (\<lambda>J0.
     and_then (assign3 (pb_J s) p J0) (\<lambda>J'.
     and_then (view3 (pb_K s) 0) (\<lambda>K0.
     and_then (assign3 (pb_K s) p K0) (\<lambda>K'.
     and_then (get (pb_detJ s) 0) (\<lambda>d0.
     and_then (put (pb_detJ s) (int p) d0) (\<lambda>detJ'.
     Inr (s\<lparr>pb_J := J', pb_K := K', pb_detJ := detJ'\<rparr>)))))))"

text \<open>
  The body of the non-affine loop, for a point \<open>p\<close> of the tabulation \<open>phi\<close>: Jacobian,
  inverse and determinant are computed at that point.
\<close>

definition jacobian_step ::
  "kernels \<Rightarrow> table4 \<Rightarrow> nat \<Rightarrow> mat \<Rightarrow> nat \<Rightarrow> pull_back_state \<Rightarrow> error + pull_back_state" where
  "jacobian_step ks phi tdim coordinate_dofs p s =
     and_then (view3 (pb_J s) p) (\<lambda>Jp.
     let J_new = compute_jacobian ks (dphi_view phi tdim p) coordinate_dofs Jp in
     and_then (assign3 (pb_J s) p J_new) (\<lambda>J'.
     and_then (view3 (pb_K s) p) (\<lambda>Kp.
     and_then (assign3 (pb_K s) p (compute_jacobian_inverse ks J_new Kp)) (\<lambda>K'.
     and_then (put (pb_detJ s) (int p) (compute_jacobian_determinant ks J_new)) (\<lambda>detJ'.
     Inr (s\<lparr>pb_J := J', pb_K := K', pb_detJ := detJ',
            pb_calls := pb_calls s
              @ [Compute_jacobian, Compute_jacobian_inverse, Compute_jacobian_determinant]\<rparr>))))))"

text \<open>
  \<^verbatim>\<open>pull_back(J, K, detJ, x, X, coordinate_dofs, cmap)\<close>. The three assertions come
  first, then the tabulation at the reference origin that the affine lambda captures,
  then the branch on the affinity of the map.
\<close>

definition pull_back ::
  "kernels \<Rightarrow> tensor3 \<Rightarrow> tensor3 \<Rightarrow> real list \<Rightarrow> mat \<Rightarrow> mat \<Rightarrow> mat \<Rightarrow> coordinate_element
   \<Rightarrow> error + pull_back_state" where
  "pull_back ks J K detJ x X coordinate_dofs cmap =
     (let num_points = length x in
      if \<not> (num_points \<le> length (slices J)) \<or> \<not> (num_points \<le> length (slices K))
         \<or> \<not> (num_points \<le> length detJ)
      then Inl Assertion_failed
      else
        let tdim = rows K;
            X0 = zeros2 1 tdim;
            data = cmap_tabulate cmap 1 X0;
            dphi_i = dphi_view data tdim 0;
            calls0 = [Tabulate 1 1]
        in
        if is_affine cmap then
          let J1 = fill_zero J in
          and_then (view3 J1 0) (\<lambda>J0.
          and_then (view3 K 0) (\<lambda>K0.
          let J0' = compute_jacobian ks dphi_i coordinate_dofs J0;
              K0' = compute_jacobian_inverse ks J0' K0;
              X' = pull_back_affine ks X K0' (x0 ks coordinate_dofs) x
          in
          and_then (assign3 J1 0 J0') (\<lambda>J2.
          and_then (assign3 K 0 K0') (\<lambda>K2.
          and_then (put detJ 0 (compute_jacobian_determinant ks J0')) (\<lambda>detJ2.
          for_loop [1..<num_points] broadcast_step
            \<lparr>pb_J = J2, pb_K = K2, pb_detJ = detJ2, pb_X = X',
             pb_calls = calls0 @ [Compute_jacobian, Compute_jacobian_inverse,
                                  Pull_back_affine, Compute_jacobian_determinant]\<rparr>)))))
        else
          let X' = pull_back_nonaffine cmap X x coordinate_dofs;
              phi = cmap_tabulate cmap 1 X';
              J1 = fill_zero J
          in
          for_loop [0..<length X'] (jacobian_step ks phi tdim coordinate_dofs)
            \<lparr>pb_J = J1, pb_K = K, pb_detJ = detJ, pb_X = X',
             pb_calls = calls0 @ [Pull_back_nonaffine, Tabulate 1 (length X')]\<rparr>)"

section \<open>Geometric map engine: \<^verbatim>\<open>pull_back_2\<close>\<close>

record pull_back_2_state =
  pb2_J :: tensor3
  pb2_K :: tensor3
  pb2_H :: tensor3
  pb2_X :: mat
  pb2_calls :: "cmap_call list"

text \<open>The body of the affine loop of \<^verbatim>\<open>pull_back_2\<close>: only \<open>J\<close> and \<open>K\<close> are copied.\<close>

definition broadcast_step_2 :: "nat \<Rightarrow> pull_back_2_state \<Rightarrow> error + pull_back_2_state" where
  "broadcast_step_2 p s =
     and_then (view3 (pb2_J s) 0) (\<lambda>J0.
     and_then (assign3 (pb2_J s) p J0) (\<lambda>J'.
     and_then (view3 (pb2_K s) 0) (\<lambda>K0.
     and_then (assign3 (pb2_K s) p K0) (\<lambda>K'.
     Inr (s\<lparr>pb2_J := J', pb2_K := K'\<rparr>)))))"

text \<open>
  The body of the non-affine loop of \<^verbatim>\<open>pull_back_2\<close>: the Jacobian and its inverse, and the
  second-derivative tensor \<open>H\<close> through the same kernel applied to the second derivatives
  of the tabulation.
\<close>

definition hessian_step ::
  "kernels \<Rightarrow> table4 \<Rightarrow> nat \<Rightarrow> mat \<Rightarrow> nat \<Rightarrow> pull_back_2_state \<Rightarrow> error + pull_back_2_state" where
  "hessian_step ks phi tdim coordinate_dofs p s =
     and_then (view3 (pb2_J s) p) (\<lambda>Jp.
     and_then (view3 (pb2_H s) p) (\<lambda>Hp.
     let J_new = compute_jacobian ks (dphi_view phi tdim p) coordinate_dofs Jp in
     and_then (assign3 (pb2_J s) p J_new) (\<lambda>J'.
     and_then (view3 (pb2_K s) p) (\<lambda>Kp.
     and_then (assign3 (pb2_K s) p (compute_jacobian_inverse ks J_new Kp)) (\<lambda>K'.
     and_then (assign3 (pb2_H s) p
                (compute_jacobian ks (ddphi_view phi tdim p) coordinate_dofs Hp)) (\<lambda>H'.
     Inr (s\<lparr>pb2_J := J', pb2_K := K', pb2_H := H',
            pb2_calls := pb2_calls s
              @ [Compute_jacobian, Compute_jacobian_inverse, Compute_jacobian]\<rparr>)))))))"

text \<open>\<^verbatim>\<open>pull_back_2(J, K, H, x, X, coordinate_dofs, cmap)\<close>.\<close>

definition pull_back_2 ::
  "kernels \<Rightarrow> tensor3 \<Rightarrow> tensor3 \<Rightarrow> tensor3 \<Rightarrow> mat \<Rightarrow> mat \<Rightarrow> mat \<Rightarrow> coordinate_element
   \<Rightarrow> error + pull_back_2_state" where
  "pull_back_2 ks J K H x X coordinate_dofs cmap =
     (let num_points = length x in
      if \<not> (num_points \<le> length (slices J)) \<or> \<not> (num_points \<le> length (slices K))
      then Inl Assertion_failed
      else
        let tdim = rows K;
            X0 = zeros2 1 tdim;
            data = cmap_tabulate cmap 1 X0;
            dphi_i = dphi_view data tdim 0;
            calls0 = [Tabulate 1 1]
        in
        if is_affine cmap then
          let J1 = fill_zero J in
          and_then (view3 J1 0) (\<lambda>J0.
          and_then (view3 K 0) (\<lambda>K0.
          let J0' = compute_jacobian ks dphi_i coordinate_dofs J0;
              K0' = compute_jacobian_inverse ks J0' K0;
              X' = pull_back_affine ks X K0' (x0 ks coordinate_dofs) x
          in
          and_then (assign3 J1 0 J0') (\<lambda>J2.
          and_then (assign3 K 0 K0') (\<lambda>K2.
          and_then (for_loop [1..<num_points] broadcast_step_2
            \<lparr>pb2_J = J2, pb2_K = K2, pb2_H = H, pb2_X = X',
             pb2_calls = calls0 @ [Compute_jacobian, Compute_jacobian_inverse,
                                   Pull_back_affine]\<rparr>) (\<lambda>s.
          Inr (s\<lparr>pb2_H := fill_zero (pb2_H s)\<rparr>))))))
        else
          let X' = pull_back_nonaffine cmap X x coordinate_dofs;
              phi = cmap_tabulate cmap 2 X';
              J1 = fill_zero J;
              H1 = fill_zero H
          in
          for_loop [0..<length X'] (hessian_step ks phi tdim coordinate_dofs)
            \<lparr>pb2_J = J1, pb2_K = K, pb2_H = H1, pb2_X = X',
             pb2_calls = calls0 @ [Pull_back_nonaffine, Tabulate 2 (length X')]\<rparr>)"

section \<open>Basis evaluator: \<^verbatim>\<open>get_basis_functions\<close>\<close>

text \<open>
  The finite element is library code as well: its sizes, its tabulation (points and
  derivative order to a table indexed by derivative, point, basis function and component),
  the transformation of reference values for a cell orientation (applied to the values of
  one point, with the permutation data and a block size), and the push-forward
  \<open>map_fn u U J detJ K\<close>, which is the new contents of its output \<open>u\<close>.
\<close>

record finite_element =
  block_size :: nat
  reference_value_size :: nat
  value_size :: nat
  space_dimension :: nat
  needs_dof_transformations :: bool
  tabulate :: "mat \<Rightarrow> nat \<Rightarrow> table4"
  apply_dof_transformation :: "mat \<Rightarrow> int \<Rightarrow> nat \<Rightarrow> mat"
  dof_transformation_function :: "mat \<Rightarrow> nat list \<Rightarrow> int \<Rightarrow> int \<Rightarrow> mat"
  map_fn :: "mat \<Rightarrow> mat \<Rightarrow> mat \<Rightarrow> real \<Rightarrow> mat \<Rightarrow> mat"

text \<open>A rank-4 \<^verbatim>\<open>xtensor\<close> that the code allocates itself keeps the shape it was given.\<close>

record array4 =
  shape4 :: "nat \<times> nat \<times> nat \<times> nat"
  values4 :: table4

text \<open>\<^verbatim>\<open>xt::zeros<double>({a, b, c, d})\<close>.\<close>

definition zeros4 :: "nat \<Rightarrow> nat \<Rightarrow> nat \<Rightarrow> nat \<Rightarrow> array4" where
  "zeros4 a b c d =
     \<lparr>shape4 = (a, b, c, d),
      values4 = replicate a (replicate b (replicate c (replicate d 0)))\<rparr>"

text \<open>The element write \<^verbatim>\<open>t(k, p, i, j) = v\<close>.\<close>

definition set4 :: "table4 \<Rightarrow> nat \<Rightarrow> nat \<Rightarrow> nat \<Rightarrow> nat \<Rightarrow> real \<Rightarrow> table4" where
  "set4 t k p i j v = t[k := (t ! k)[p := (t ! k ! p)[i := (t ! k ! p ! i)[j := v]]]]"

text \<open>What \<^verbatim>\<open>get_basis_functions\<close> returns and what it leaves in its in-out arguments.\<close>

record basis_result =
  gb_basis :: array4
  gb_J :: tensor3
  gb_K :: tensor3
  gb_detJ :: "real list"
  gb_calls :: "cmap_call list"

text \<open>
  The body of the push-forward loops, for the point \<open>q\<close> and the derivative index \<open>j\<close>:
  the reference values of the point are transformed for the orientation \<open>perm\<close> and pushed
  forward with the geometry of the point into \<^verbatim>\<open>basis_values(j, q, :, :)\<close>.
\<close>

definition push_forward_step ::
  "finite_element \<Rightarrow> table4 \<Rightarrow> pull_back_state \<Rightarrow> int \<Rightarrow> nat \<Rightarrow> nat \<Rightarrow> table4
   \<Rightarrow> error + table4" where
  "push_forward_step element tabulated_data s perm q j basis_values =
     (let point_basis_values = apply_dof_transformation element (tabulated_data ! j ! q) perm 1 in
      and_then (view3 (pb_J s) q) (\<lambda>Jq.
      and_then (view3 (pb_K s) q) (\<lambda>Kq.
      and_then (get (pb_detJ s) (int q)) (\<lambda>detJq.
      Inr (basis_values[j := (basis_values ! j)
             [q := map_fn element (basis_values ! j ! q) point_basis_values Jq detJq Kq]])))))"

text \<open>
  The expansion loops:
  \<^verbatim>\<open>basis_array(k, p, i * block_size + block, j * block_size + block) = basis_values(k, p, i, j)\<close>.
  Every index is inside the shape with which the two arrays were allocated.
\<close>

definition expand_basis ::
  "nat \<Rightarrow> nat \<Rightarrow> nat \<Rightarrow> nat \<Rightarrow> nat \<Rightarrow> table4 \<Rightarrow> table4 \<Rightarrow> table4" where
  "expand_basis num_points bs space_dim value_sz num_k basis_values basis_array =
     fold (\<lambda>p. fold (\<lambda>block. fold (\<lambda>i. fold (\<lambda>j. fold (\<lambda>k a.
        set4 a k p (i * bs + block) (j * bs + block) (basis_values ! k ! p ! i ! j))
       [0..<num_k]) [0..<value_sz]) [0..<space_dim]) [0..<bs]) [0..<num_points] basis_array"

text \<open>
  \<^verbatim>\<open>get_basis_functions(J, K, detJ, x, coordinate_dofs, index, perm, element, cmap,
  num_derivatives)\<close>. The storage of \<open>X\<close>, \<open>tabulated_data\<close> and \<open>basis_values\<close> is
  uninitialised in the source and written before it is read; the model starts it at zero.
\<close>

definition get_basis_functions ::
  "kernels \<Rightarrow> tensor3 \<Rightarrow> tensor3 \<Rightarrow> real list \<Rightarrow> mat \<Rightarrow> mat \<Rightarrow> int \<Rightarrow> int \<Rightarrow> finite_element
   \<Rightarrow> coordinate_element \<Rightarrow> nat \<Rightarrow> error + basis_result" where
  "get_basis_functions ks J K detJ x coordinate_dofs index perm element cmap num_derivatives =
     (if \<not> num_derivatives < 2 then Inl Assertion_failed
      else
        let num_points = length x in
        if \<not> (num_points \<le> length (slices J)) \<or> \<not> (num_points \<le> length (slices K))
           \<or> \<not> (num_points \<le> length detJ)
        then Inl Assertion_failed
        else
          let tdim = rows K;
              bs = block_size element
          in
          if bs = 0 then Inl Division_by_zero
          else
            let ref_value_size = reference_value_size element div bs;
                value_sz = value_size element div bs;
                space_dim = space_dimension element div bs;
                X = zeros2 (length x) tdim;
                basis_array = zeros4 (num_derivatives * tdim + 1) num_points
                                (space_dim * bs) (value_sz * bs)
            in
            if index < 0
            then Inr \<lparr>gb_basis = basis_array, gb_J = J, gb_K = K, gb_detJ = detJ, gb_calls = []\<rparr>
            else
              and_then (pull_back ks J K detJ x X coordinate_dofs cmap) (\<lambda>s.
              let tabulated_data = tabulate element (pb_X s) num_derivatives;
                  basis_values0 =
                    values4 (zeros4 (num_derivatives * tdim + 1) num_points space_dim value_sz)
              in
              and_then
                (for_loop [0..<num_points] (\<lambda>q.
                   for_loop [0..<num_derivatives * tdim + 1]
                     (push_forward_step element tabulated_data s perm q)) basis_values0)
                (\<lambda>basis_values.
              Inr \<lparr>gb_basis = basis_array\<lparr>values4 :=
                       expand_basis num_points bs space_dim value_sz
                         (num_derivatives * tdim + 1) basis_values (values4 basis_array)\<rparr>,
                   gb_J = pb_J s, gb_K = pb_K s, gb_detJ = pb_detJ s,
                   gb_calls = pb_calls s\<rparr>)))"

section \<open>Facet Jacobians: \<^verbatim>\<open>compute_facet_jacobians\<close> and \<^verbatim>\<open>get_update_jacobian_dependencies\<close>\<close>

text \<open>
  \<^verbatim>\<open>compute_facet_jacobians(q, J, K, J_tot, J_f, dphi, coords)\<close>. The result is the returned
  number together with the new contents of the in-out arguments \<open>J\<close>, \<open>K\<close> and \<open>J_tot\<close>.
  The table \<open>dphi\<close> is indexed by direction, point and basis function; a point \<open>q\<close> outside
  it is an access outside the storage.
\<close>

definition compute_facet_jacobians ::
  "kernels \<Rightarrow> nat \<Rightarrow> mat \<Rightarrow> mat \<Rightarrow> mat \<Rightarrow> mat \<Rightarrow> real list list list \<Rightarrow> mat
   \<Rightarrow> error + real \<times> mat \<times> mat \<times> mat" where
  "compute_facet_jacobians ks q J K J_tot J_f dphi coords =
     (let gdim = length J in
      if \<exists>d \<in> set dphi. \<not> q < length d then Inl Out_of_bounds
      else
        let dphi0_c = map (\<lambda>d. d ! q) dphi;
            c_view = map (take gdim) coords;
            J' = compute_jacobian ks dphi0_c c_view (zero_mat J);
            K' = compute_jacobian_inverse ks J' K;
            J_tot' = dot ks J' J_f (zero_mat J_tot)
        in Inr (\<bar>compute_jacobian_determinant ks J_tot'\<bar>, J', K', J_tot'))"

text \<open>
  \<^verbatim>\<open>get_update_jacobian_dependencies(cmap)\<close> returns one of two closures; the model returns
  the corresponding function of the closure's arguments
  \<open>q detJ J K J_tot J_f dphi coords\<close>.
\<close>

definition get_update_jacobian_dependencies ::
  "kernels \<Rightarrow> coordinate_element
   \<Rightarrow> (nat \<Rightarrow> real \<Rightarrow> mat \<Rightarrow> mat \<Rightarrow> mat \<Rightarrow> mat \<Rightarrow> real list list list \<Rightarrow> mat
       \<Rightarrow> error + real \<times> mat \<times> mat \<times> mat)" where
  "get_update_jacobian_dependencies ks cmap =
     (if is_affine cmap
      then (\<lambda>q detJ J K J_tot J_f dphi coords. Inr (detJ, J, K, J_tot))
      else (\<lambda>q detJ J K J_tot J_f dphi coords.
              compute_facet_jacobians ks q J K J_tot J_f dphi coords))"

section \<open>Doubles that keep the sign of zero\<close>

text \<open>
  The kernels above and the packers below are stated in exact arithmetic: their scalars
  are real numbers. \<^verbatim>\<open>update_geometry\<close> is the one function whose effect is asked about bit
  by bit, and for it the scalars are the finite values of an IEEE 754 \<^verbatim>\<open>double\<close> as far as
  one addition can tell them apart: the positive zero, the negative zero, and the numbers
  other than zero (\<open>Nonzero r\<close> stands for the double of value \<open>r\<close>, with \<open>r \<noteq> 0\<close>). Infinities
  and NaNs are not modelled.
\<close>

datatype double = Pos_zero | Neg_zero | Nonzero real

text \<open>
  \<^verbatim>\<open>std::plus<double>\<close> in the default rounding mode, to nearest: the sum of two zeros is
  the negative zero only when both are negative zeros; the sum of a number and a zero is
  that number; the sum of a number and its opposite is the positive zero. These sums are
  exact in IEEE 754. The sum of two numbers other than zero is idealised as their exact
  sum (no rounding, no overflow).
\<close>

fun add_double :: "double \<Rightarrow> double \<Rightarrow> double" where
  "add_double Neg_zero Neg_zero = Neg_zero"
| "add_double Neg_zero Pos_zero = Pos_zero"
| "add_double Pos_zero Neg_zero = Pos_zero"
| "add_double Pos_zero Pos_zero = Pos_zero"
| "add_double Pos_zero (Nonzero b) = Nonzero b"
| "add_double Neg_zero (Nonzero b) = Nonzero b"
| "add_double (Nonzero a) Pos_zero = Nonzero a"
| "add_double (Nonzero a) Neg_zero = Nonzero a"
| "add_double (Nonzero a) (Nonzero b) = (if a + b = 0 then Pos_zero else Nonzero (a + b))"

text \<open>The number that a double denotes, and the test \<^verbatim>\<open>x == 0.0\<close>.\<close>

fun value_of :: "double \<Rightarrow> real" where
  "value_of Pos_zero = 0"
| "value_of Neg_zero = 0"
| "value_of (Nonzero r) = r"

fun is_zero :: "double \<Rightarrow> bool" where
  "is_zero Pos_zero = True"
| "is_zero Neg_zero = True"
| "is_zero (Nonzero r) = False"

section \<open>Mesh, function space and field\<close>

text \<open>
  The mesh as the kernels read it: the two dimensions, the cell type (an opaque tag), the
  coordinate element, the geometry dof map (one list of node indices per cell), the flat
  coordinate array with three entries per node, the number of cells (owned and ghost), the
  connectivity from facets to cells and from cells to facets, and the orientation data of
  the cells. The two connectivities are those that \<^verbatim>\<open>create_connectivity\<close> builds on demand;
  building them changes no value that the kernels return. The field \<open>mesh_id\<close> stands for
  the identity of the mesh object, which the code compares through pointers. The type
  parameter is the type of the stored scalars: \<open>real\<close> for the packers, \<open>double\<close> for
  \<^verbatim>\<open>update_geometry\<close>.
\<close>

record 'a mesh =
  mesh_id :: nat
  topology_dim :: int
  geometry_dim :: int
  cell_type :: nat
  geometry_cmap :: coordinate_element
  x_dofmap :: "int list list"
  x_g :: "'a list"
  num_cells :: int
  f_to_c :: "int list list"
  c_to_f :: "int list list"
  cell_permutation_info :: "nat list"

text \<open>
  A field on a function space: the mesh, the element, the block size of the dof map, the
  dofs of every cell, the layout descriptor of the dof map, and the array of dof values.
\<close>

record 'a fem_function =
  fn_mesh :: "'a mesh"
  fn_element :: finite_element
  dofmap_bs :: int
  cell_dofs :: "int list list"
  element_dof_layout :: "nat list"
  fn_array :: "'a list"

text \<open>\<^verbatim>\<open>AdjacencyList::links(n)\<close> and \<^verbatim>\<open>DofMap::cell_dofs(n)\<close>.\<close>

definition links :: "int list list \<Rightarrow> int \<Rightarrow> error + int list" where
  "links g n = get g n"

section \<open>Batch utilities: \<^verbatim>\<open>update_geometry\<close>\<close>

text \<open>
  The innermost statement of the loops over cells \<open>c\<close>, local dofs \<open>i\<close> and components \<open>j\<close>:
  \<^verbatim>\<open>dx[3 * dofs_x[i] + j] = u_data[bs * dofs[i] + j]\<close>. The right-hand side is evaluated
  first. Both index expressions are computed in \<^verbatim>\<open>int\<close>.
\<close>

definition displacement_step ::
  "double list \<Rightarrow> int \<Rightarrow> int list \<Rightarrow> int list \<Rightarrow> nat \<Rightarrow> nat \<Rightarrow> double list \<Rightarrow> error + double list" where
  "displacement_step u_data bs dofs dofs_x i j dx =
     and_then (get dofs (int i)) (\<lambda>dof.
     and_then (int32_mul bs dof) (\<lambda>first.
     and_then (int32_add first (int j)) (\<lambda>src.
     and_then (get u_data src) (\<lambda>v.
     and_then (get dofs_x (int i)) (\<lambda>node.
     and_then (int32_mul 3 node) (\<lambda>base.
     and_then (int32_add base (int j)) (\<lambda>dst.
     put dx dst v)))))))"

definition displacement_cell ::
  "double fem_function \<Rightarrow> double mesh \<Rightarrow> nat \<Rightarrow> double list \<Rightarrow> error + double list" where
  "displacement_cell u m c dx =
     and_then (links (cell_dofs u) (int c)) (\<lambda>dofs.
     and_then (links (x_dofmap m) (int c)) (\<lambda>dofs_x.
     for_loop [0..<length dofs] (\<lambda>i.
       for_loop [0..<nat (dofmap_bs u)]
         (displacement_step (fn_array u) (dofmap_bs u) dofs dofs_x i)) dx))"

text \<open>
  \<^verbatim>\<open>update_geometry(u, mesh)\<close>: the assertions on the mesh and on the layouts, the
  displacement \<open>dx\<close> gathered cell by cell into a vector of positive zeros (the value
  initialisation of \<^verbatim>\<open>std::vector<double>\<close>) as long as the coordinate array, and the
  element-wise sum \<^verbatim>\<open>coords[k] + dx[k]\<close> written back into every coordinate of the mesh.
\<close>

definition update_geometry :: "double fem_function \<Rightarrow> double mesh \<Rightarrow> error + double mesh" where
  "update_geometry u m =
     (if mesh_id m \<noteq> mesh_id (fn_mesh u) then Inl Assertion_failed
      else if element_dof_layout u \<noteq> create_dof_layout (geometry_cmap m) then Inl Assertion_failed
      else
        let coords = x_g m;
            dx0 = replicate (length coords) Pos_zero
        in
        and_then (for_loop [0..<nat (num_cells m)] (displacement_cell u m) dx0) (\<lambda>dx.
        Inr (m\<lparr>x_g := map2 add_double coords dx\<rparr>)))"

text \<open>
  The accesses of the three loops of \<^verbatim>\<open>update_geometry\<close>, collected: every cell has its dofs
  and its geometry nodes, every local dof has a geometry node, every index expression is
  a 32-bit integer, and every index into the dof values and into the displacement vector
  is inside the array.
\<close>

definition int32_ok :: "int \<Rightarrow> bool" where
  "int32_ok v \<longleftrightarrow> - (2 ^ 31) \<le> v \<and> v < 2 ^ 31"

definition displacement_in_bounds :: "double fem_function \<Rightarrow> double mesh \<Rightarrow> bool" where
  "displacement_in_bounds u m \<longleftrightarrow>
     (\<forall>c \<in> {0..<nat (num_cells m)}.
        c < length (cell_dofs u) \<and> c < length (x_dofmap m)
      \<and> (\<forall>i \<in> {0..<length (cell_dofs u ! c)}.
            i < length (x_dofmap m ! c)
          \<and> int32_ok (dofmap_bs u * (cell_dofs u ! c ! i))
          \<and> int32_ok (3 * (x_dofmap m ! c ! i))
          \<and> (\<forall>j \<in> {0..<nat (dofmap_bs u)}.
                0 \<le> dofmap_bs u * (cell_dofs u ! c ! i) + int j
              \<and> dofmap_bs u * (cell_dofs u ! c ! i) + int j < int (length (fn_array u))
              \<and> dofmap_bs u * (cell_dofs u ! c ! i) + int j < 2 ^ 31
              \<and> 0 \<le> 3 * (x_dofmap m ! c ! i) + int j
              \<and> 3 * (x_dofmap m ! c ! i) + int j < int (length (x_g m))
              \<and> 3 * (x_dofmap m ! c ! i) + int j < 2 ^ 31)))"
section \<open>Coefficient packer: \<^verbatim>\<open>pack_coefficient_quadrature\<close>\<close>

text \<open>The integral types of the library, of which the packer supports the first two.\<close>

datatype integral_type = Cell | Exterior_facet | Interior_facet | Vertex

text \<open>
  The quadrature rule of \<^verbatim>\<open>dolfinx_cuas\<close> is library code: for a cell type, a degree and a
  dimension it has one weight vector and one set of reference points per local entity.
  The constructor is a parameter \<open>make_rule\<close> of the packers.
\<close>

record quadrature_rule =
  weights_ref :: "real list list"
  points_ref :: "mat list"

text \<open>The lambda \<^verbatim>\<open>fetch_cell\<close>: the active entity is the cell, the local index is 0.\<close>

definition fetch_cell :: "int list \<Rightarrow> nat \<Rightarrow> error + int \<times> int" where
  "fetch_cell active_entities i =
     and_then (get active_entities (int i)) (\<lambda>cell. Inr (cell, 0))"

text \<open>
  \<^verbatim>\<open>std::distance(cell_facets.data(), std::find(cell_facets.begin(), cell_facets.end(), facet))\<close>:
  the position of the first occurrence, or the length of the list when there is none.
\<close>

fun find_index :: "int list \<Rightarrow> int \<Rightarrow> nat" where
  "find_index [] v = 0"
| "find_index (x # xs) v = (if x = v then 0 else Suc (find_index xs v))"

text \<open>
  The lambda \<^verbatim>\<open>fetch_facet\<close>: the cells of the facet, the assertion that there is exactly
  one, and the position of the facet among the facets of that cell.
\<close>

definition fetch_facet ::
  "int list \<Rightarrow> int list list \<Rightarrow> int list list \<Rightarrow> nat \<Rightarrow> error + int \<times> int" where
  "fetch_facet active_entities facet_cells cell_facet_lists i =
     and_then (get active_entities (int i)) (\<lambda>facet.
     and_then (links facet_cells facet) (\<lambda>cells.
     if length cells \<noteq> 1 then Inl Assertion_failed
     else
       let cell = cells ! 0 in
       and_then (links cell_facet_lists cell) (\<lambda>cell_facets.
       Inr (cell, int (find_index cell_facets facet)))))"

text \<open>The second \<^verbatim>\<open>switch\<close>: the choice of \<^verbatim>\<open>get_cell_info\<close>.\<close>

definition get_cell_info ::
  "integral_type \<Rightarrow> int list \<Rightarrow> int list list \<Rightarrow> int list list
   \<Rightarrow> error + (nat \<Rightarrow> error + int \<times> int)" where
  "get_cell_info integral active_entities facet_cells cell_facet_lists =
     (case integral of
        Cell \<Rightarrow> Inr (fetch_cell active_entities)
      | Exterior_facet \<Rightarrow> Inr (fetch_facet active_entities facet_cells cell_facet_lists)
      | _ \<Rightarrow> Inl (Runtime_error ''Unsupported integral type''))"

text \<open>Checked reads \<^verbatim>\<open>t(e, q, d, l)\<close> and \<^verbatim>\<open>t(q, d, l)\<close> of tabulated values.\<close>

definition at3 :: "real list list list \<Rightarrow> nat \<Rightarrow> nat \<Rightarrow> nat \<Rightarrow> error + real" where
  "at3 t q d l =
     and_then (get t (int q)) (\<lambda>a.
     and_then (get a (int d)) (\<lambda>b.
     get b (int l)))"

definition at4 :: "table4 \<Rightarrow> int \<Rightarrow> nat \<Rightarrow> nat \<Rightarrow> nat \<Rightarrow> error + real" where
  "at4 t e q d l = and_then (get t e) (\<lambda>a. at3 a q d l)"

text \<open>
  The innermost statement of the accumulation, in both branches:
  \<^verbatim>\<open>coefficients[cstride * i + q * (bs * vs) + k + l] += basis(q, d, l) * data[pos_v + k]\<close>.
\<close>

definition accumulate_step ::
  "real list \<Rightarrow> nat \<Rightarrow> nat \<Rightarrow> nat \<Rightarrow> nat \<Rightarrow> int \<Rightarrow> (nat \<Rightarrow> nat \<Rightarrow> error + real)
   \<Rightarrow> nat \<Rightarrow> nat \<Rightarrow> nat \<Rightarrow> real list \<Rightarrow> error + real list" where
  "accumulate_step data cstride bs vs i pos_v basis q k l coefficients =
     (let idx = int (cstride * i + q * (bs * vs) + k + l) in
      and_then (basis q l) (\<lambda>b.
      and_then (get data (pos_v + int k)) (\<lambda>v.
      and_then (get coefficients idx) (\<lambda>old.
      put coefficients idx (old + b * v)))))"

text \<open>
  The accumulation for the active entity \<open>i\<close>: the loops over the dofs \<open>d\<close> of the cell, the
  quadrature points \<open>q\<close>, the blocks \<open>k\<close> and the value components \<open>l\<close>.
\<close>

definition accumulate_cell ::
  "real list \<Rightarrow> nat \<Rightarrow> nat \<Rightarrow> nat \<Rightarrow> nat \<Rightarrow> nat \<Rightarrow> int list
   \<Rightarrow> (nat \<Rightarrow> nat \<Rightarrow> nat \<Rightarrow> error + real) \<Rightarrow> real list \<Rightarrow> error + real list" where
  "accumulate_cell data cstride bs vs num_points i dofs basis coefficients =
     for_loop [0..<length dofs] (\<lambda>d c1.
       and_then (get dofs (int d)) (\<lambda>dof.
       let pos_v = int bs * dof in
       for_loop [0..<num_points] (\<lambda>q.
         for_loop [0..<bs] (\<lambda>k.
           for_loop [0..<vs]
             (accumulate_step data cstride bs vs i pos_v (\<lambda>q l. basis q d l) q k))) c1))
       coefficients"

text \<open>A fallible function applied to the elements of a list, in order.\<close>

primrec map_result :: "('a \<Rightarrow> error + 'b) \<Rightarrow> 'a list \<Rightarrow> error + 'b list" where
  "map_result f [] = Inr []"
| "map_result f (x # xs) =
     and_then (f x) (\<lambda>y. and_then (map_result f xs) (\<lambda>ys. Inr (y # ys)))"

text \<open>
  The cell geometry: \<^verbatim>\<open>coordinate_dofs(k, j) = x_g[3 * x_dofs[k] + j]\<close> for the first
  \<open>num_dofs_g\<close> nodes of the cell and the \<open>gdim\<close> components.
\<close>

definition cell_geometry :: "real list \<Rightarrow> int list \<Rightarrow> nat \<Rightarrow> int \<Rightarrow> error + mat" where
  "cell_geometry coords x_dofs num_dofs_g gdim =
     map_result (\<lambda>k.
       and_then (get x_dofs (int k)) (\<lambda>node.
       map_result (\<lambda>j. get coords (3 * node + int j)) [0..<nat gdim]))
     [0..<num_dofs_g]"

text \<open>
  The first derivatives of the coordinate basis at the points of one local entity:
  \<^verbatim>\<open>xt::view(cmap.tabulate(1, q_ent), xt::xrange(1, tdim + 1), ...)\<close>. The slice
  \<^verbatim>\<open>xt::xrange\<close> is not clipped to the extent of the table: when the tabulation has fewer
  than \<open>tdim + 1\<close> rows the view reads outside it.
\<close>

definition dphi_block :: "coordinate_element \<Rightarrow> int \<Rightarrow> mat \<Rightarrow> error + table4" where
  "dphi_block cm tdim q_ent =
     (let cmap_basis_functions = cmap_tabulate cm 1 q_ent in
      if nat tdim + 1 \<le> length cmap_basis_functions
      then Inr (take (nat tdim) (drop 1 cmap_basis_functions))
      else Inl Out_of_bounds)"

text \<open>The buffers that live across the entities in the branch with dof transformations.\<close>

record pack_state =
  pk_J :: tensor3
  pk_K :: tensor3
  pk_detJ :: "real list"
  pk_basis_values :: "real list list list"
  pk_coefficients :: "real list"

text \<open>
  The body of the loop over the quadrature points of one entity in that branch: the
  geometry of the point, the transformation of the reference values of the point for the
  orientation of the cell, and the push-forward into \<^verbatim>\<open>basis_values(q, :, :)\<close>.
\<close>

definition transform_point_step ::
  "kernels \<Rightarrow> finite_element \<Rightarrow> table4 \<Rightarrow> table4 \<Rightarrow> mat \<Rightarrow> nat list \<Rightarrow> int \<Rightarrow> int \<Rightarrow> nat
   \<Rightarrow> nat \<Rightarrow> pack_state \<Rightarrow> error + pack_state" where
  "transform_point_step ks element reference_basis_values dphi_ci coordinate_dofs cell_info
     cell entity_index vs q s =
     (let J1 = fill_zero (pk_J s);
          dphi = map (\<lambda>d. map (\<lambda>b. b ! 0) (d ! q)) dphi_ci
      in
      and_then (view3 J1 q) (\<lambda>Jq.
      let J_new = compute_jacobian ks dphi coordinate_dofs Jq in
      and_then (assign3 J1 q J_new) (\<lambda>J'.
      and_then (view3 (pk_K s) q) (\<lambda>Kq.
      let K_new = compute_jacobian_inverse ks J_new Kq in
      and_then (assign3 (pk_K s) q K_new) (\<lambda>K'.
      and_then (put (pk_detJ s) (int q) (compute_jacobian_determinant ks J_new)) (\<lambda>detJ'.
      and_then (get reference_basis_values entity_index) (\<lambda>entity_values.
      and_then (get entity_values (int q)) (\<lambda>point_values.
      let point_basis_values =
            dof_transformation_function element point_values cell_info cell (int vs)
      in
      and_then (get (pk_basis_values s) (int q)) (\<lambda>u.
      and_then (put (pk_basis_values s) (int q)
                 (map_fn element u point_basis_values J_new
                   (compute_jacobian_determinant ks J_new) K_new)) (\<lambda>basis_values'.
      Inr (s\<lparr>pk_J := J', pk_K := K', pk_detJ := detJ',
             pk_basis_values := basis_values'\<rparr>)))))))))))"

text \<open>
  \<^verbatim>\<open>pack_coefficient_quadrature(coeff, q_degree, integral, active_entities)\<close>. The result
  is the coefficient vector and its stride. In the branch with dof transformations the
  table \<^verbatim>\<open>dphi_c\<close> is declared with \<^verbatim>\<open>num_dofs_g / bs\<close> basis functions and filled from a
  tabulation with \<^verbatim>\<open>num_dofs_g\<close>; where the two extents differ the assignment is not an
  element-wise copy, and the model ends in \<open>Shape_mismatch\<close>.
\<close>

definition pack_coefficient_quadrature ::
  "kernels \<Rightarrow> (nat \<Rightarrow> int \<Rightarrow> int \<Rightarrow> quadrature_rule) \<Rightarrow> real fem_function \<Rightarrow> int \<Rightarrow> integral_type
   \<Rightarrow> int list \<Rightarrow> error + real list \<times> nat" where
  "pack_coefficient_quadrature ks make_rule coeff q_degree integral active_entities =
     (let m = fn_mesh coeff;
          tdim = topology_dim m;
          gdim = geometry_dim m
      in
      and_then
        (case integral of
           Cell \<Rightarrow> Inr (make_rule (cell_type m) q_degree tdim)
         | Exterior_facet \<Rightarrow> Inr (make_rule (cell_type m) q_degree (tdim - 1))
         | _ \<Rightarrow> Inl (Runtime_error ''Unsupported integral type''))
        (\<lambda>q_rule.
      let element = fn_element coeff;
          data = fn_array coeff;
          needs = needs_dof_transformations element;
          cell_info = (if needs then cell_permutation_info m else []);
          num_dofs = space_dimension element;
          bs = nat (dofmap_bs coeff)
      in
      if block_size element = 0 then Inl Division_by_zero
      else
        let vs = reference_value_size element div block_size element;
            weights = weights_ref q_rule;
            points = points_ref q_rule;
            num_entities = length points
        in
        if weights = [] then Inl Out_of_bounds
        else
          let num_points = length (weights ! 0) in
          if bs = 0 then Inl Division_by_zero
          else
            let reference_basis_values = map (\<lambda>q_ent. tabulate element q_ent 0 ! 0) points in
            and_then (get_cell_info integral active_entities (f_to_c m) (c_to_f m))
              (\<lambda>cell_info_fn.
            let num_active_entities = length active_entities;
                coefficients0 = replicate (num_active_entities * vs * bs * num_points) 0;
                cstride = vs * bs * num_points
            in
            if needs then
              (if x_dofmap m = [] then Inl Out_of_bounds
              else
                let num_dofs_g = length (x_dofmap m ! 0);
                    cm = geometry_cmap m
                in
                if points \<noteq> [] \<and> num_dofs_g div bs \<noteq> num_dofs_g then Inl Shape_mismatch
                else
                  and_then (map_result (dphi_block cm tdim) points) (\<lambda>dphi_c.
                  let s0 = \<lparr>pk_J = \<lparr>rows = nat gdim, cols = nat tdim,
                                    slices = replicate num_points (zeros2 (nat gdim) (nat tdim))\<rparr>,
                            pk_K = \<lparr>rows = nat tdim, cols = nat gdim,
                                    slices = replicate num_points (zeros2 (nat tdim) (nat gdim))\<rparr>,
                            pk_detJ = replicate num_points 0,
                            pk_basis_values = replicate num_points (zeros2 (num_dofs div bs) vs),
                            pk_coefficients = coefficients0\<rparr>
                  in
                  and_then
                    (for_loop [0..<num_active_entities] (\<lambda>i s.
                       and_then (cell_info_fn i) (\<lambda>(cell, entity_index).
                       and_then (links (x_dofmap m) cell) (\<lambda>x_dofs.
                       if length x_dofs \<noteq> num_dofs_g then Inl Assertion_failed
                       else
                         and_then (cell_geometry (x_g m) x_dofs num_dofs_g gdim)
                           (\<lambda>coordinate_dofs.
                         and_then (get dphi_c entity_index) (\<lambda>dphi_ci.
                         and_then
                           (for_loop [0..<num_points]
                              (transform_point_step ks element reference_basis_values dphi_ci
                                 coordinate_dofs cell_info cell entity_index vs) s)
                           (\<lambda>s'.
                         and_then (links (cell_dofs coeff) cell) (\<lambda>dofs.
                         and_then
                           (accumulate_cell data cstride bs vs num_points i dofs
                              (at3 (pk_basis_values s')) (pk_coefficients s'))
                           (\<lambda>coefficients'.
                         Inr (s'\<lparr>pk_coefficients := coefficients'\<rparr>))))))))) s0)
                    (\<lambda>s. Inr (pk_coefficients s, cstride))))
            else
              and_then
                (for_loop [0..<num_active_entities] (\<lambda>i coefficients.
                   and_then (cell_info_fn i) (\<lambda>(cell, entity_index).
                   and_then (links (cell_dofs coeff) cell) (\<lambda>dofs.
                   accumulate_cell data cstride bs vs num_points i dofs
                     (at4 reference_basis_values entity_index) coefficients))) coefficients0)
                (\<lambda>coefficients. Inr (coefficients, cstride)))))"

section \<open>Auxiliary geometric quantities: \<^verbatim>\<open>pack_circumradius\<close>\<close>

text \<open>
  The body of the loop over the active pairs of a cell and a local facet index: the cell
  geometry, the Jacobian at the single quadrature point of the facet, its determinant,
  and the circumradius. The function \<^verbatim>\<open>compute_circumradius\<close> belongs to another source
  file of the repository and is a parameter.
\<close>

definition circumradius_step ::
  "kernels \<Rightarrow> (real mesh \<Rightarrow> real \<Rightarrow> mat \<Rightarrow> real) \<Rightarrow> real mesh \<Rightarrow> table4 list \<Rightarrow> nat \<Rightarrow> nat
   \<Rightarrow> int \<times> int \<Rightarrow> error + real" where
  "circumradius_step ks compute_circumradius m dphi_c num_points num_dofs_g facet =
     (case facet of (cell, local_index) \<Rightarrow>
        and_then (links (x_dofmap m) cell) (\<lambda>x_dofs.
        and_then (cell_geometry (x_g m) x_dofs num_dofs_g (geometry_dim m)) (\<lambda>coordinate_dofs.
        and_then (get dphi_c local_index) (\<lambda>dphi_cl.
        if num_points = 0 then Inl Out_of_bounds
        else
          let dphi = map (\<lambda>d. map (\<lambda>b. b ! 0) (d ! 0)) dphi_cl;
              J0 = compute_jacobian ks dphi coordinate_dofs
                     (zeros2 (nat (geometry_dim m)) (nat (topology_dim m)));
              detJ0 = compute_jacobian_determinant ks J0
          in Inr (compute_circumradius m detJ0 coordinate_dofs)))))"

text \<open>\<^verbatim>\<open>pack_circumradius(mesh, active_facets)\<close>: the result is the vector and the stride 1.\<close>

definition pack_circumradius ::
  "kernels \<Rightarrow> (nat \<Rightarrow> int \<Rightarrow> int \<Rightarrow> quadrature_rule) \<Rightarrow> (real mesh \<Rightarrow> real \<Rightarrow> mat \<Rightarrow> real) \<Rightarrow> real mesh
   \<Rightarrow> (int \<times> int) list \<Rightarrow> error + real list \<times> int" where
  "pack_circumradius ks make_rule compute_circumradius m active_facets =
     (if \<not> is_affine (geometry_cmap m)
      then Inl (Runtime_error ''Non-affine circumradius is not implemented'')
      else
        let tdim = topology_dim m;
            fdim = tdim - 1;
            q_rule = make_rule (cell_type m) 0 fdim
        in
        if weights_ref q_rule = [] then Inl Out_of_bounds
        else
          let weights = weights_ref q_rule ! 0;
              points = points_ref q_rule;
              num_points = length weights
          in
          if x_dofmap m = [] then Inl Out_of_bounds
          else
            let num_dofs_g = length (x_dofmap m ! 0) in
            and_then (map_result (dphi_block (geometry_cmap m) tdim) points) (\<lambda>dphi_c.
            and_then
              (map_result
                 (circumradius_step ks compute_circumradius m dphi_c num_points num_dofs_g)
                 active_facets)
              (\<lambda>circumradius. Inr (circumradius, 1))))"

section \<open>Well-formed connectivity\<close>

text \<open>
  The two connectivities of a mesh are transposes of each other. The part of this that the
  translation of facets relies on: every cell recorded for a facet is a cell of the mesh
  and has that facet in its list of facets.
\<close>

definition connectivity_consistent :: "int list list \<Rightarrow> int list list \<Rightarrow> bool" where
  "connectivity_consistent facet_cells cell_facet_lists \<longleftrightarrow>
     (\<forall>f \<in> {0..<length facet_cells}. \<forall>c \<in> set (facet_cells ! f).
        0 \<le> c \<and> c < int (length cell_facet_lists) \<and> int f \<in> set (cell_facet_lists ! nat c))"

section \<open>Sample collaborators\<close>

text \<open>
  Concrete collaborators on which the theorems below are instantiated: kernels on
  one-by-one matrices, an affine and a non-affine coordinate element over them, and
  three-point buffers.
\<close>

definition sample_kernels :: kernels where
  "sample_kernels =
     \<lparr>compute_jacobian = (\<lambda>dphi cell_geometry J. map (map (\<lambda>v. v + 2)) J),
      compute_jacobian_inverse = (\<lambda>J K. map (map (\<lambda>v. 1 / v)) J),
      compute_jacobian_determinant = (\<lambda>J. J ! 0 ! 0),
      pull_back_affine = (\<lambda>X K x0 x. x),
      x0 = (\<lambda>cell_geometry. cell_geometry ! 0),
      dot = (\<lambda>A B C. [[C ! 0 ! 0 + A ! 0 ! 0 * B ! 0 ! 0]])\<rparr>"

definition sample_cmap :: "bool \<Rightarrow> coordinate_element" where
  "sample_cmap affine =
     \<lparr>is_affine = affine,
      cmap_tabulate = (\<lambda>n X. replicate (n + 1) (map (\<lambda>_. [[1], [1]]) X)),
      pull_back_nonaffine = (\<lambda>X x cell_geometry. x),
      create_dof_layout = [1, 0]\<rparr>"

definition sample_tensor :: tensor3 where
  "sample_tensor = \<lparr>rows = 1, cols = 1, slices = [[[5]], [[6]], [[9]]]\<rparr>"

definition sample_points :: mat where
  "sample_points = [[0], [1 / 2], [1]]"

definition sample_element :: finite_element where
  "sample_element =
     \<lparr>block_size = 2, reference_value_size = 2, value_size = 2, space_dimension = 4,
      needs_dof_transformations = False,
      tabulate = (\<lambda>X n. replicate (n + 1) (map (\<lambda>_. [[1], [2]]) X)),
      apply_dof_transformation = (\<lambda>values perm block. values),
      dof_transformation_function = (\<lambda>values cell_info cell block. values),
      map_fn = (\<lambda>u U J detJ K. U)\<rparr>"

text \<open>
  A mesh of two triangles on four nodes in the plane (nodes 0, 1, 2 and 1, 2, 3), with five
  facets, of which facet 2 is shared by both cells, and a vector-valued linear field on it
  with one block of two values per node.
\<close>

definition sample_mesh :: "real mesh" where
  "sample_mesh =
     \<lparr>mesh_id = 1, topology_dim = 2, geometry_dim = 2, cell_type = 3,
      geometry_cmap = sample_cmap True,
      x_dofmap = [[0, 1, 2], [1, 2, 3]],
      x_g = [0, 0, 0, 1, 0, 0, 0, 1, 0, 1, 1, 0],
      num_cells = 2,
      f_to_c = [[0], [0], [0, 1], [1], [1]],
      c_to_f = [[2, 1, 0], [4, 3, 2]],
      cell_permutation_info = [0, 0]\<rparr>"

definition sample_field :: "real list \<Rightarrow> real fem_function" where
  "sample_field values =
     \<lparr>fn_mesh = sample_mesh, fn_element = sample_element, dofmap_bs = 2,
      cell_dofs = [[0, 1, 2], [1, 2, 3]], element_dof_layout = [1, 0],
      fn_array = values\<rparr>"

text \<open>
  The same mesh with stored doubles, the first coordinate of node 0 being the negative
  zero (as after a reflection of the mesh), and the field on it whose dof values are all
  the positive zero.
\<close>

definition signed_zero_mesh :: "double mesh" where
  "signed_zero_mesh =
     \<lparr>mesh_id = 1, topology_dim = 2, geometry_dim = 2, cell_type = 3,
      geometry_cmap = sample_cmap True,
      x_dofmap = [[0, 1, 2], [1, 2, 3]],
      x_g = [Neg_zero, Pos_zero, Pos_zero, Nonzero 1, Pos_zero, Pos_zero,
             Pos_zero, Nonzero 1, Pos_zero, Nonzero 1, Nonzero 1, Pos_zero],
      num_cells = 2,
      f_to_c = [[0], [0], [0, 1], [1], [1]],
      c_to_f = [[2, 1, 0], [4, 3, 2]],
      cell_permutation_info = [0, 0]\<rparr>"

definition zero_field :: "double fem_function" where
  "zero_field =
     \<lparr>fn_mesh = signed_zero_mesh, fn_element = sample_element, dofmap_bs = 2,
      cell_dofs = [[0, 1, 2], [1, 2, 3]], element_dof_layout = [1, 0],
      fn_array = [Pos_zero, Pos_zero, Pos_zero, Pos_zero, Pos_zero, Pos_zero, Pos_zero,
                  Pos_zero]\<rparr>"

text \<open>
  A blocked element without dof transformations whose blocks are vector valued: block
  size 2, reference value size 4, three basis functions per block, whose values at every
  point are \<open>(1, 0)\<close>, \<open>(0, 1)\<close> and \<open>(0, 0)\<close>, so that in each of the two value components
  the basis functions sum to one; the field on it whose dofs are not shared between the two
  cells and all have the value 1; and a rule with one point per local entity.
\<close>

definition blocked_vector_element :: finite_element where
  "blocked_vector_element =
     \<lparr>block_size = 2, reference_value_size = 4, value_size = 4, space_dimension = 6,
      needs_dof_transformations = False,
      tabulate = (\<lambda>X n. [map (\<lambda>_. [[1, 0], [0, 1], [0, 0]]) X]),
      apply_dof_transformation = (\<lambda>values perm block. values),
      dof_transformation_function = (\<lambda>values cell_info cell block. values),
      map_fn = (\<lambda>u U J detJ K. U)\<rparr>"

definition blocked_vector_field :: "real fem_function" where
  "blocked_vector_field =
     \<lparr>fn_mesh = sample_mesh, fn_element = blocked_vector_element, dofmap_bs = 2,
      cell_dofs = [[0, 1, 2], [3, 4, 5]], element_dof_layout = [0, 0, 3],
      fn_array = [1, 1, 1, 1, 1, 1, 1, 1, 1, 1, 1, 1]\<rparr>"

definition one_point_rule :: "nat \<Rightarrow> int \<Rightarrow> int \<Rightarrow> quadrature_rule" where
  "one_point_rule cell degree d =
     (if d = 2 then \<lparr>weights_ref = [[1 / 2]], points_ref = [[[1 / 3, 1 / 3]]]\<rparr>
      else \<lparr>weights_ref = [[1], [1], [1]], points_ref = [[[1 / 2]], [[1 / 2]], [[1 / 2]]]\<rparr>)"

text \<open>
  A blocked element with scalar blocks (a vector-valued linear element): block size 2,
  three basis functions per block with the values \<open>1/2\<close>, \<open>1/4\<close> and \<open>1/4\<close> at every point.
\<close>

definition linear_vector_element :: finite_element where
  "linear_vector_element =
     \<lparr>block_size = 2, reference_value_size = 2, value_size = 2, space_dimension = 6,
      needs_dof_transformations = False,
      tabulate = (\<lambda>X n. [map (\<lambda>_. [[1 / 2], [1 / 4], [1 / 4]]) X]),
      apply_dof_transformation = (\<lambda>values perm block. values),
      dof_transformation_function = (\<lambda>values cell_info cell block. values),
      map_fn = (\<lambda>u U J detJ K. U)\<rparr>"


text \<open>
  Kernels that compute what the kernels of the library compute on matrices with one or
  two rows and columns: \<open>compute_jacobian\<close> adds to \<open>J(i, j)\<close> the sum over the nodes \<open>k\<close> of
  \<open>cell_geometry(k, i) * dphi(j, k)\<close>; the inverse and the determinant are those of a
  one-by-one or two-by-two matrix.
\<close>

definition product_kernels :: kernels where
  "product_kernels =
     \<lparr>compute_jacobian = (\<lambda>dphi cell_geometry J.
         map (\<lambda>i. map (\<lambda>j. J ! i ! j
                 + (\<Sum>k\<leftarrow>[0..<length cell_geometry]. cell_geometry ! k ! i * dphi ! j ! k))
               [0..<length (J ! i)])
           [0..<length J]),
      compute_jacobian_inverse = (\<lambda>J K.
         if length J = 1 then [[1 / J ! 0 ! 0]]
         else let d = J ! 0 ! 0 * J ! 1 ! 1 - J ! 0 ! 1 * J ! 1 ! 0
              in [[J ! 1 ! 1 / d, - (J ! 0 ! 1) / d], [- (J ! 1 ! 0) / d, J ! 0 ! 0 / d]]),
      compute_jacobian_determinant = (\<lambda>J.
         if length J = 1 then J ! 0 ! 0
         else J ! 0 ! 0 * J ! 1 ! 1 - J ! 0 ! 1 * J ! 1 ! 0),
      pull_back_affine = (\<lambda>X K x0 x. x),
      x0 = (\<lambda>cell_geometry. cell_geometry ! 0),
      dot = (\<lambda>A B C. [[C ! 0 ! 0 + A ! 0 ! 0 * B ! 0 ! 0]])\<rparr>"

text \<open>
  A non-affine coordinate element on the unit interval with the two basis functions
  \<open>1 - X^3\<close> and \<open>X^3\<close>: its tabulation has one row for the values, one for the first
  derivatives \<open>-3 X^2\<close> and \<open>3 X^2\<close>, and one for the second derivatives \<open>-6 X\<close> and \<open>6 X\<close>. Its solver returns
  the initial guess it is given.
\<close>

definition cubic_cmap :: coordinate_element where
  "cubic_cmap =
     \<lparr>is_affine = False,
      cmap_tabulate = (\<lambda>n X. take (n + 1)
         [map (\<lambda>p. [[1 - (p ! 0) ^ 3], [(p ! 0) ^ 3]]) X,
          map (\<lambda>p. [[- 3 * (p ! 0) ^ 2], [3 * (p ! 0) ^ 2]]) X,
          map (\<lambda>p. [[- 6 * (p ! 0)], [6 * (p ! 0)]]) X]),
      pull_back_nonaffine = (\<lambda>X x cell_geometry. X),
      create_dof_layout = [1, 0]\<rparr>"

text \<open>
  The affine coordinate element of the triangle, with the basis functions \<open>1 - X - Y\<close>, \<open>X\<close>
  and \<open>Y\<close>, tabulated up to first order, and a rule with one point in the middle of each
  facet of the reference triangle.
\<close>

definition triangle_cmap :: coordinate_element where
  "triangle_cmap =
     \<lparr>is_affine = True,
      cmap_tabulate = (\<lambda>n X. take (2 * n + 1)
         [map (\<lambda>p. [[1 - p ! 0 - p ! 1], [p ! 0], [p ! 1]]) X,
          map (\<lambda>p. [[- 1], [1], [0]]) X,
          map (\<lambda>p. [[- 1], [0], [1]]) X]),
      pull_back_nonaffine = (\<lambda>X x cell_geometry. X),
      create_dof_layout = [1, 0]\<rparr>"

definition facet_midpoint_rule :: "nat \<Rightarrow> int \<Rightarrow> int \<Rightarrow> quadrature_rule" where
  "facet_midpoint_rule cell degree d =
     \<lparr>weights_ref = [[1], [1], [1]],
      points_ref = [[[1 / 2, 1 / 2]], [[0, 1 / 2]], [[1 / 2, 0]]]\<rparr>"
section \<open>Proofs: sequencing and loops\<close>

lemma int32_cast_small: "n < 2 ^ 31 \<Longrightarrow> int32_cast n = int n"
  by (simp add: int32_cast_def)

lemma and_then_Inr [simp]: "and_then (Inr x) f = f x"
  by (simp add: and_then_def)

lemma and_then_Inl [simp]: "and_then (Inl e) f = Inl e"
  by (simp add: and_then_def)

lemma for_loop_append:
  "for_loop (xs @ ys) body s = and_then (for_loop xs body s) (for_loop ys body)"
  by (induction xs arbitrary: s) (auto split: sum.splits)

lemma for_loop_snoc:
  "for_loop [0..<Suc k] body s = and_then (for_loop [0..<k] body s) (body k)"
proof -
  have "for_loop [k] body = body k"
    by (rule ext) (simp split: sum.splits)
  then show ?thesis by (simp add: for_loop_append)
qed

lemma for_loop_upt_snoc:
  assumes "a \<le> n"
  shows "for_loop [a..<Suc n] body s = and_then (for_loop [a..<n] body s) (body n)"
proof -
  have "for_loop [n] body = body n"
    by (rule ext) (simp split: sum.splits)
  then show ?thesis using assms by (simp add: for_loop_append)
qed

lemma for_loop_upt_rule:
  assumes "P a s"
    and "\<And>i t. a \<le> i \<Longrightarrow> i < b \<Longrightarrow> P i t \<Longrightarrow> \<exists>t'. body i t = Inr t' \<and> P (Suc i) t'"
    and "a \<le> b"
  shows "\<exists>s'. for_loop [a..<b] body s = Inr s' \<and> P b s'"
proof -
  have "\<exists>s'. for_loop [a..<n] body s = Inr s' \<and> P n s'" if "a \<le> n" "n \<le> b" for n
    using that
  proof (induction n)
    case 0
    then show ?case using assms(1) by simp
  next
    case (Suc n)
    show ?case
    proof (cases "a = Suc n")
      case True
      then show ?thesis using assms(1) by simp
    next
      case False
      then have an: "a \<le> n" using Suc.prems by simp
      then obtain t where t: "for_loop [a..<n] body s = Inr t" "P n t"
        using Suc by auto
      obtain t' where "body n t = Inr t'" "P (Suc n) t'"
        using assms(2) [OF an _ t(2)] Suc.prems by auto
      then show ?thesis
        using t an by (simp add: for_loop_upt_snoc del: upt_Suc)
    qed
  qed
  then show ?thesis using assms(3) by simp
qed

lemma for_loop_upt_partial:
  assumes "P a s"
    and "\<And>i t t'. a \<le> i \<Longrightarrow> i < b \<Longrightarrow> P i t \<Longrightarrow> body i t = Inr t' \<Longrightarrow> P (Suc i) t'"
    and "a \<le> b"
    and "for_loop [a..<b] body s = Inr s'"
  shows "P b s'"
proof -
  have "\<forall>s'. for_loop [a..<n] body s = Inr s' \<longrightarrow> P n s'" if "a \<le> n" "n \<le> b" for n
    using that
  proof (induction n)
    case 0
    then show ?case using assms(1) by simp
  next
    case (Suc n)
    show ?case
    proof (cases "a = Suc n")
      case True
      then show ?thesis using assms(1) by simp
    next
      case False
      then have an: "a \<le> n" using Suc.prems by simp
      have ih: "\<forall>t. for_loop [a..<n] body s = Inr t \<longrightarrow> P n t"
        using Suc an by simp
      show ?thesis
      proof (intro allI impI)
        fix s' assume r: "for_loop [a..<Suc n] body s = Inr s'"
        then obtain t where t: "for_loop [a..<n] body s = Inr t" "body n t = Inr s'"
          using an by (cases "for_loop [a..<n] body s") (simp_all add: for_loop_upt_snoc del: upt_Suc)
        then have "P n t" using ih by simp
        then show "P (Suc n) s'" using assms(2) [OF an _ _ t(2)] Suc.prems by simp
      qed
    qed
  qed
  then show ?thesis using assms(3,4) by simp
qed

lemma get_in_range: "i < length xs \<Longrightarrow> get xs (int i) = Inr (xs ! i)"
  by (simp add: get_def)

lemma put_in_range: "i < length xs \<Longrightarrow> put xs (int i) v = Inr (xs[i := v])"
  by (simp add: put_def)

lemma gather_loop:
  assumes "n \<le> length perm" "\<forall>p \<in> set perm. 0 \<le> p \<and> p < int (length cells)"
    and "n \<le> length uc"
  shows "for_loop [0..<n] (gather_step cells perm) uc
         = Inr (map (\<lambda>i. cells ! nat (perm ! i)) [0..<n] @ drop n uc)"
  using assms
proof (induction n)
  case 0
  then show ?case by simp
next
  case (Suc n)
  have p: "0 \<le> perm ! n \<and> perm ! n < int (length cells)"
    using Suc.prems by (simp add: nth_mem)
  have len: "n < length (map (\<lambda>i. cells ! nat (perm ! i)) [0..<n] @ drop n uc)"
    using Suc.prems by simp
  have "for_loop [0..<Suc n] (gather_step cells perm) uc
        = gather_step cells perm n (map (\<lambda>i. cells ! nat (perm ! i)) [0..<n] @ drop n uc)"
    using Suc by (simp add: for_loop_snoc del: upt_Suc)
  also have "\<dots> = Inr ((map (\<lambda>i. cells ! nat (perm ! i)) [0..<n] @ drop n uc)[n := cells ! nat (perm ! n)])"
    using Suc.prems p len unfolding gather_step_def
    by (simp add: get_in_range get_def put_in_range del: upt_Suc)
  also have "(map (\<lambda>i. cells ! nat (perm ! i)) [0..<n] @ drop n uc)[n := cells ! nat (perm ! n)]
        = map (\<lambda>i. cells ! nat (perm ! i)) [0..<Suc n] @ drop (Suc n) uc"
    using Suc.prems by (simp add: list_update_append Cons_nth_drop_Suc [symmetric])
  finally show ?case .
qed

lemma sorted_below_nth:
  assumes "sorted u" "Suc k < length u" "u ! k \<noteq> u ! Suc k"
  shows "below u (u ! Suc k) = int (Suc k)"
proof -
  have split: "u = take (Suc k) u @ drop (Suc k) u" by simp
  have lt: "u ! k < u ! Suc k"
    using assms by (metis le_neq_trans lessI less_imp_le_nat sorted_nth_mono)
  have a: "\<forall>x \<in> set (take (Suc k) u). x < u ! Suc k"
  proof
    fix x assume "x \<in> set (take (Suc k) u)"
    then obtain i where "i < Suc k" "x = u ! i"
      using assms(2) by (auto simp: in_set_conv_nth)
    then have "x \<le> u ! k" using assms(1,2) by (simp add: sorted_nth_mono)
    then show "x < u ! Suc k" using lt by simp
  qed
  have b: "\<forall>x \<in> set (drop (Suc k) u). \<not> x < u ! Suc k"
  proof
    fix x assume "x \<in> set (drop (Suc k) u)"
    then obtain i where "i < length u - Suc k" "x = u ! (Suc k + i)"
      by (auto simp: in_set_conv_nth)
    then have "u ! Suc k \<le> x" using assms(1,2) by (simp add: sorted_nth_mono)
    then show "\<not> x < u ! Suc k" by simp
  qed
  have "filter (\<lambda>x. x < u ! Suc k) u
        = filter (\<lambda>x. x < u ! Suc k) (take (Suc k) u) @ filter (\<lambda>x. x < u ! Suc k) (drop (Suc k) u)"
    by (metis split filter_append)
  also have "\<dots> = take (Suc k) u"
    using a b by (simp add: filter_id_conv filter_empty_conv)
  finally show ?thesis using assms(2) by (simp add: below_def)
qed

lemma sorted_below_hd:
  assumes "sorted u" "u \<noteq> []"
  shows "below u (u ! 0) = 0"
proof -
  have "\<forall>x \<in> set u. \<not> x < u ! 0"
  proof
    fix x assume "x \<in> set u"
    then obtain i where "i < length u" "x = u ! i" by (auto simp: in_set_conv_nth)
    then have "u ! 0 \<le> x" using assms(1) by (simp add: sorted_nth_mono)
    then show "\<not> x < u ! 0" by simp
  qed
  then show ?thesis by (simp add: below_def filter_empty_conv)
qed

lemma remdups_adj_take_Suc:
  assumes "Suc k < length u"
  shows "remdups_adj (take (Suc (Suc k)) u)
         = remdups_adj (take (Suc k) u) @ (if u ! k = u ! Suc k then [] else [u ! Suc k])"
proof -
  have "take (Suc (Suc k)) u = take k u @ [u ! k, u ! Suc k]"
    using assms by (simp add: take_Suc_conv_app_nth)
  moreover have "take (Suc k) u = take k u @ [u ! k]"
    using assms by (simp add: take_Suc_conv_app_nth)
  ultimately show ?thesis by (simp add: remdups_adj_append_two)
qed

lemma offsets_loop:
  assumes "sorted u" "Suc k \<le> length u" "length offs0 = Suc (length u)" "offs0 ! 0 = 0"
  shows "\<exists>offs. for_loop [0..<k] (offsets_step u) (0, offs0)
               = Inr (int (length (remdups_adj (take (Suc k) u))) - 1, offs)
          \<and> length offs = Suc (length u)
          \<and> take (length (remdups_adj (take (Suc k) u))) offs
            = map (below u) (remdups_adj (take (Suc k) u))"
  using assms(2)
proof (induction k)
  case 0
  have ne: "u \<noteq> []" using 0 by auto
  then have t: "take (Suc 0) u = [u ! 0]"
    by (cases u) simp_all
  have "take (Suc 0) offs0 = [0]"
    using assms(3,4) by (cases offs0) simp_all
  then show ?case
    using assms(1,3) ne by (simp add: t sorted_below_hd)
next
  case (Suc k)
  let ?r = "length (remdups_adj (take (Suc k) u))"
  from Suc obtain offs where
    run: "for_loop [0..<k] (offsets_step u) (0, offs0) = Inr (int ?r - 1, offs)"
    and len: "length offs = Suc (length u)"
    and tk: "take ?r offs = map (below u) (remdups_adj (take (Suc k) u))"
    by auto
  have k: "Suc k < length u" using Suc.prems by simp
  have rpos: "1 \<le> ?r" using k
    by (metis One_nat_def remdups_adj_length_ge1 take_eq_Nil2 Zero_not_Suc less_nat_zero_code list.size(3))
  have rle: "?r \<le> Suc k"
    using remdups_adj_length [of "take (Suc k) u"] k by simp
  have step: "for_loop [0..<Suc k] (offsets_step u) (0, offs0)
              = offsets_step u k (int ?r - 1, offs)"
    using run by (simp add: for_loop_snoc del: upt_Suc)
  show ?case
  proof (cases "u ! k = u ! Suc k")
    case True
    then have "offsets_step u k (int ?r - 1, offs) = Inr (int ?r - 1, offs)"
      using k by (simp add: offsets_step_def get_def nat_add_distrib)
    then show ?thesis
      using step len tk True k by (simp add: remdups_adj_take_Suc del: upt_Suc take_Suc)
  next
    case False
    have "offsets_step u k (int ?r - 1, offs) = Inr (int ?r, offs[?r := int k + 1])"
      using k False rle len by (simp add: offsets_step_def get_def put_def nat_add_distrib)
    moreover have "take (Suc ?r) (offs[?r := int k + 1]) = take ?r offs @ [int k + 1]"
      using rle len k by (simp add: take_Suc_conv_app_nth)
    moreover have "below u (u ! Suc k) = int k + 1"
      using sorted_below_nth [OF assms(1) k False] by simp
    ultimately show ?thesis
      using step len tk False k by (simp add: remdups_adj_take_Suc del: upt_Suc take_Suc)
  qed
qed

lemma iota_small: "length perm < 2 ^ 31 \<Longrightarrow> iota perm = map int [0..<length perm]"
  by (simp add: iota_def int32_cast_small)

lemma mset_argsort:
  "mset (map (\<lambda>i. cells ! nat i) (argsort_radix cells (map int [0..<length cells]))) = mset cells"
proof -
  have "mset (map (\<lambda>i. cells ! nat i) (argsort_radix cells (map int [0..<length cells])))
        = image_mset (\<lambda>i. cells ! nat i) (mset (map int [0..<length cells]))"
    by (simp add: argsort_radix_def)
  also have "\<dots> = mset (map (\<lambda>i. cells ! i) [0..<length cells])"
    by (simp add: image_mset.compositionality comp_def del: mset_map mset_upt flip: mset_map)
  finally show ?thesis by (simp add: map_nth)
qed


lemma gathered_eq_sort:
  "map (\<lambda>i. cells ! nat i) (argsort_radix cells (map int [0..<length cells])) = sort cells"
proof (rule sym, rule properties_for_sort)
  show "mset (map (\<lambda>i. cells ! nat i) (argsort_radix cells (map int [0..<length cells]))) = mset cells"
    by (rule mset_argsort)
  show "sorted (map (\<lambda>i. cells ! nat i) (argsort_radix cells (map int [0..<length cells])))"
    by (simp add: argsort_radix_def)
qed

lemma below_mset: "mset u = mset v \<Longrightarrow> below u = below v"
  unfolding below_def
  by (rule ext) (metis mset_filter size_mset)

lemma sort_cells_nonempty:
  assumes ne: "cells \<noteq> []" and small: "length cells < 2 ^ 31 - 1" and len: "length perm = length cells"
  shows "sort_cells cells perm
         = Inr (argsort_radix cells (map int [0..<length cells]),
                remdups_adj (sort cells),
                map (below cells) (remdups_adj (sort cells)) @ [int (length cells)])"
proof -
  let ?n = "length cells"
  let ?p = "argsort_radix cells (map int [0..<?n])"
  let ?u = "sort cells"
  let ?r = "length (remdups_adj ?u)"
  have npos: "0 < ?n" using ne by simp
  have small': "?n < 2 ^ 31" using small by simp
  have cast: "int32_cast ?n = int ?n" using small' by (rule int32_cast_small)
  have io: "iota perm = map int [0..<?n]" using small' len by (simp add: iota_small)
  have add: "int32_add (int ?n) 1 = Inr (int ?n + 1)"
    using small by (simp add: int32_add_def int32_range_def)
  have plen: "length ?p = ?n" by (simp add: argsort_radix_def)
  have pset: "\<forall>p \<in> set ?p. 0 \<le> p \<and> p < int ?n"
    by (auto simp: argsort_radix_def)
  have "for_loop [0..<?n] (gather_step cells ?p) (replicate ?n 0)
        = Inr (map (\<lambda>i. cells ! nat (?p ! i)) [0..<?n] @ drop ?n (replicate ?n 0))"
    by (rule gather_loop) (use plen pset in simp_all)
  also have "map (\<lambda>i. cells ! nat (?p ! i)) [0..<?n] = map (\<lambda>i. cells ! nat i) ?p"
    using plen by (intro nth_equalityI) simp_all
  finally have g: "for_loop [0..<?n] (gather_step cells ?p) (replicate ?n 0) = Inr ?u"
    by (simp add: gathered_eq_sort)
  have k: "Suc (?n - 1) = ?n" using npos by simp
  obtain offs where
    run: "for_loop [0..<?n - 1] (offsets_step ?u) (0, replicate (Suc ?n) 0)
          = Inr (int ?r - 1, offs)"
    and olen: "length offs = Suc ?n"
    and tk: "take ?r offs = map (below ?u) (remdups_adj ?u)"
    using offsets_loop [of ?u "?n - 1" "replicate (Suc ?n) 0"] k by auto
  have rle: "?r \<le> ?n" using remdups_adj_length [of ?u] by simp
  have fin: "put offs (int ?r - 1 + 1) (int ?n) = Inr (offs[?r := int ?n])"
    using rle olen by (simp add: put_def)
  have rs: "resize (Suc ?r) (offs[?r := int ?n]) = take ?r offs @ [int ?n]"
    using rle olen by (simp add: resize_def take_Suc_conv_app_nth)
  have b: "below ?u = below cells" by (rule below_mset) simp
  have n1: "nat (int ?n - 1) = ?n - 1" by simp
  have n2: "nat (int ?n + 1) = Suc ?n" by simp
  show ?thesis
    unfolding sort_cells_def Let_def cast io add
    using len g run fin rs tk b by (simp add: n1 n2 del: upt_Suc)
qed

lemma distinct_remdups_adj_sorted:
  fixes xs :: "int list"
  shows "sorted xs \<Longrightarrow> distinct (remdups_adj xs)"
  by (induction xs rule: remdups_adj.induct) (auto split: if_split_asm)

lemma below_le_count:
  "below u v + int (count_list u v) = int (length (filter (\<lambda>x. x \<le> v) u))"
  unfolding below_def count_list_eq_length_filter
  by (induction u) auto

lemma strict_next:
  fixes U :: "int list"
  assumes "sorted U" "distinct U" "Suc i < length U" "x \<in> set U"
  shows "x < U ! Suc i \<longleftrightarrow> x \<le> U ! i"
proof -
  have st: "sorted_wrt (<) U" using assms(1,2) by (simp add: strict_sorted_iff)
  obtain m where m: "m < length U" "x = U ! m"
    using assms(4) by (auto simp: in_set_conv_nth)
  have lt: "\<And>a b. a < b \<Longrightarrow> b < length U \<Longrightarrow> U ! a < U ! b"
    using st by (simp add: sorted_wrt_nth_less)
  show ?thesis
  proof (cases "m \<le> i")
    case True
    then have "U ! m \<le> U ! i" using assms(1,3) by (simp add: sorted_nth_mono)
    moreover have "U ! m < U ! Suc i" using True assms(3) by (intro lt) simp_all
    ultimately show ?thesis using m by simp
  next
    case False
    then have "U ! i < U ! m" using m by (intro lt) simp_all
    moreover have "U ! Suc i \<le> U ! m" using False m assms(1) by (simp add: sorted_nth_mono)
    ultimately show ?thesis using m by simp
  qed
qed

lemma below_next:
  fixes cells :: "int list"
  assumes "sorted U" "distinct U" "set U = set cells" "Suc i < length U"
  shows "below cells (U ! Suc i) = below cells (U ! i) + int (count_list cells (U ! i))"
proof -
  have "filter (\<lambda>x. x < U ! Suc i) cells = filter (\<lambda>x. x \<le> U ! i) cells"
    by (rule filter_cong) (use assms strict_next in auto)
  then show ?thesis by (simp add: below_le_count) (simp add: below_def)
qed

lemma below_last:
  fixes cells :: "int list"
  assumes "sorted U" "set U = set cells" "Suc i = length U"
  shows "int (length cells) = below cells (U ! i) + int (count_list cells (U ! i))"
proof -
  have "\<forall>x \<in> set cells. x \<le> U ! i"
  proof
    fix x assume "x \<in> set cells"
    then have "x \<in> set U" using assms(2) by simp
    then obtain m where "m < length U" "x = U ! m"
      by (auto simp: in_set_conv_nth)
    then show "x \<le> U ! i" using assms(1,3) by (simp add: sorted_nth_mono)
  qed
  then have "filter (\<lambda>x. x \<le> U ! i) cells = cells" by (simp add: filter_id_conv)
  then show ?thesis by (simp add: below_le_count)
qed

lemma sorted_nth_ge_below:
  assumes "sorted u" "j < length u" "below u v \<le> int j"
  shows "v \<le> u ! j"
proof (rule ccontr)
  assume "\<not> v \<le> u ! j"
  then have lt: "u ! j < v" by simp
  have "\<forall>x \<in> set (take (Suc j) u). x < v"
  proof
    fix x assume "x \<in> set (take (Suc j) u)"
    then obtain i where "i < Suc j" "x = u ! i"
      using assms(2) by (auto simp: in_set_conv_nth)
    then have "x \<le> u ! j" using assms(1,2) by (simp add: sorted_nth_mono)
    then show "x < v" using lt by simp
  qed
  then have "filter (\<lambda>x. x < v) (take (Suc j) u) = take (Suc j) u"
    by (simp add: filter_id_conv)
  moreover have "filter (\<lambda>x. x < v) u
      = filter (\<lambda>x. x < v) (take (Suc j) u) @ filter (\<lambda>x. x < v) (drop (Suc j) u)"
    by (metis append_take_drop_id filter_append)
  ultimately have "Suc j \<le> length (filter (\<lambda>x. x < v) u)"
    using assms(2) by simp
  then show False using assms(3) by (simp add: below_def)
qed

lemma sorted_nth_le_above:
  assumes "sorted u" "j < length u" "int j < int (length (filter (\<lambda>x. x \<le> v) u))"
  shows "u ! j \<le> v"
proof (rule ccontr)
  assume "\<not> u ! j \<le> v"
  then have lt: "v < u ! j" by simp
  have "\<forall>x \<in> set (drop j u). \<not> x \<le> v"
  proof
    fix x assume "x \<in> set (drop j u)"
    then obtain i where "i < length u - j" "x = u ! (j + i)"
      by (auto simp: in_set_conv_nth)
    then have "u ! j \<le> x" using assms(1,2) by (simp add: sorted_nth_mono)
    then show "\<not> x \<le> v" using lt by simp
  qed
  then have "filter (\<lambda>x. x \<le> v) (drop j u) = []"
    by (simp add: filter_empty_conv)
  moreover have "filter (\<lambda>x. x \<le> v) u
      = filter (\<lambda>x. x \<le> v) (take j u) @ filter (\<lambda>x. x \<le> v) (drop j u)"
    by (metis append_take_drop_id filter_append)
  ultimately have "length (filter (\<lambda>x. x \<le> v) u) \<le> j"
    using length_filter_le [of "\<lambda>x. x \<le> v" "take j u"] assms(2) by simp
  then show False using assms(3) by simp
qed

text \<open>
  The result of \<open>sort_cells\<close> on a non-empty array (shorter than \<open>2^31 - 1\<close>, with a
  permutation span of the same length): the permutation written into \<open>perm\<close> is a
  permutation of the positions that sorts the input; \<open>unique_cells\<close> is sorted, without
  repetition, and holds exactly the values of the input; \<open>offsets\<close> has one entry more;
  consecutive offsets differ by the number of occurrences of the corresponding value;
  these differences add up to the length of the input; and the positions between two
  consecutive offsets are those at which the sorted input holds that value.
\<close>

lemma sort_cells_groups:
  assumes ne: "cells \<noteq> []" and small: "length cells < 2 ^ 31 - 1" and len: "length perm = length cells"
  shows "\<exists>perm' unique_cells offsets.
           sort_cells cells perm = Inr (perm', unique_cells, offsets)
         \<and> mset perm' = mset (map int [0..<length cells])
         \<and> sorted (map (\<lambda>i. cells ! nat i) perm')
         \<and> sorted unique_cells \<and> distinct unique_cells \<and> set unique_cells = set cells
         \<and> length offsets = length unique_cells + 1
         \<and> (\<forall>i < length unique_cells.
               offsets ! Suc i - offsets ! i = int (count_list cells (unique_cells ! i)))
         \<and> (\<Sum>i < length unique_cells. offsets ! Suc i - offsets ! i) = int (length cells)
         \<and> (\<forall>i < length unique_cells. \<forall>j.
               offsets ! i \<le> int j \<and> int j < offsets ! Suc i
               \<longrightarrow> j < length cells \<and> cells ! nat (perm' ! j) = unique_cells ! i)"
proof -
  let ?n = "length cells"
  let ?p = "argsort_radix cells (map int [0..<?n])"
  let ?u = "sort cells"
  let ?U = "remdups_adj ?u"
  let ?off = "map (below cells) ?U @ [int ?n]"
  have run: "sort_cells cells perm = Inr (?p, ?U, ?off)"
    using assms by (rule sort_cells_nonempty)
  have p1: "mset ?p = mset (map int [0..<?n])" by (simp add: argsort_radix_def)
  have pu: "map (\<lambda>i. cells ! nat i) ?p = ?u" by (rule gathered_eq_sort)
  have plen: "length ?p = ?n" by (simp add: argsort_radix_def)
  have U1: "sorted ?U" by simp
  have U2: "distinct ?U" by (simp add: distinct_remdups_adj_sorted)
  have U3: "set ?U = set cells" by simp
  have une: "?u \<noteq> []" using ne by (metis length_sort length_0_conv)
  have Une: "?U \<noteq> []" using une by simp
  have lo: "\<And>i. i < length ?U \<Longrightarrow> ?off ! i = below cells (?U ! i)"
    by (simp add: nth_append)
  have hi: "\<And>i. i < length ?U \<Longrightarrow>
              ?off ! Suc i = below cells (?U ! i) + int (count_list cells (?U ! i))"
  proof -
    fix i assume i: "i < length ?U"
    show "?off ! Suc i = below cells (?U ! i) + int (count_list cells (?U ! i))"
    proof (cases "Suc i < length ?U")
      case True
      then have "?off ! Suc i = below cells (?U ! Suc i)" by (simp add: nth_append)
      then show ?thesis using below_next [OF U1 U2 U3 True] by simp
    next
      case False
      then have e: "Suc i = length ?U" using i by simp
      then have "?off ! Suc i = int ?n" by (simp add: nth_append)
      then show ?thesis using below_last [OF U1 U3 e] by simp
    qed
  qed
  have cnt: "\<forall>i < length ?U. ?off ! Suc i - ?off ! i = int (count_list cells (?U ! i))"
    using lo hi by simp
  have "?U ! 0 = ?u ! 0"
    by (metis Une une hd_conv_nth hd_remdups_adj)
  then have "below ?u (?U ! 0) = 0"
    using sorted_below_hd [of ?u] une by simp
  then have off0: "?off ! 0 = 0"
    using Une lo [of 0] below_mset [of ?u cells] by simp
  have "(\<Sum>i < length ?U. ?off ! Suc i - ?off ! i) = ?off ! length ?U - ?off ! 0"
    by (rule sum_lessThan_telescope)
  then have total: "(\<Sum>i < length ?U. ?off ! Suc i - ?off ! i) = int ?n"
    using off0 by (simp add: nth_append)
  have runs: "\<forall>i < length ?U. \<forall>j. ?off ! i \<le> int j \<and> int j < ?off ! Suc i
               \<longrightarrow> j < ?n \<and> cells ! nat (?p ! j) = ?U ! i"
  proof (intro allI impI)
    fix i j assume i: "i < length ?U" and j: "?off ! i \<le> int j \<and> int j < ?off ! Suc i"
    let ?v = "?U ! i"
    have b: "below ?u = below cells" by (rule below_mset) simp
    have c: "length (filter (\<lambda>x. x \<le> ?v) ?u) = length (filter (\<lambda>x. x \<le> ?v) cells)"
      by (metis mset_filter mset_sort size_mset)
    have up: "int j < int (length (filter (\<lambda>x. x \<le> ?v) cells))"
      using j hi [OF i] by (simp add: below_le_count)
    have "length (filter (\<lambda>x. x \<le> ?v) cells) \<le> ?n" by (rule length_filter_le)
    then have jn: "j < ?n" using up by linarith
    have "?v \<le> ?u ! j"
      using j lo [OF i] jn b by (intro sorted_nth_ge_below) simp_all
    moreover have "?u ! j \<le> ?v"
      using up jn c by (intro sorted_nth_le_above) simp_all
    ultimately have "?u ! j = ?v" by simp
    moreover have "?u ! j = cells ! nat (?p ! j)"
      using jn plen nth_map [of j ?p "\<lambda>i. cells ! nat i"] pu by simp
    ultimately show "j < ?n \<and> cells ! nat (?p ! j) = ?v" using jn by simp
  qed
  have srt: "sorted (map (\<lambda>i. cells ! nat i) ?p)" using pu by simp
  show ?thesis
    using run p1 srt U1 U2 U3 cnt total runs
    by (intro exI [of _ ?p] exI [of _ ?U] exI [of _ ?off] conjI) simp_all
qed

text \<open>
  Claim C2, at the input on which the code departs from it. The claim is stated for every
  input array; on the empty array the run of \<open>sort_cells\<close> ends in the write
  \<^verbatim>\<open>offsets[index + 1] = num_cells\<close> at position 1 of a vector of length one, and no
  result is returned. On every non-empty array of fewer than \<open>2^31 - 1\<close> entries the
  result has all the properties of the claim (\<open>sort_cells_groups\<close>).
\<close>

theorem sort_cells_empty: "sort_cells [] [] = Inl Out_of_bounds"
  by (simp add: sort_cells_def int32_cast_def int32_add_def int32_range_def put_def)

text \<open>
  Claim C10, as stated, at an input on which it fails. The claim is made for every input
  array with at least one element. The function keeps the length of the input and the
  size of \<open>offsets\<close> in \<^verbatim>\<open>std::int32_t\<close>: on an array of \<open>2^31 - 1 = 2147483647\<close> entries (here
  all zero, with a permutation span of the same length) the size \<^verbatim>\<open>num_cells + 1\<close> of
  \<open>offsets\<close> overflows, and the run has no defined behaviour from there on.
\<close>

theorem sort_cells_length_overflow:
  "replicate 2147483647 (0::int) \<noteq> []
   \<and> length (replicate 2147483647 (0::int)) = length (replicate 2147483647 (0::int))
   \<and> sort_cells (replicate 2147483647 0) (replicate 2147483647 0) = Inl Integer_overflow"
  by (simp add: sort_cells_def int32_cast_def int32_add_def int32_range_def)

text \<open>
  Claim C10, amended by the bound that the 32-bit sizes impose. With a permutation span
  as long as the input, \<open>sort_cells\<close> stays within the bounds of \<open>perm\<close>, \<open>unique_cells\<close> and
  \<open>offsets\<close> and returns, on every input that has at least one element and fewer than
  \<open>2^31 - 1\<close> of them (so that \<^verbatim>\<open>num_cells + 1\<close> is a \<^verbatim>\<open>std::int32_t\<close>). On the empty input the
  final write \<^verbatim>\<open>offsets[index + 1] = num_cells\<close> addresses position 1 of a vector of length
  one and leaves the bounds: a non-empty input is necessary.
\<close>

theorem sort_cells_in_bounds:
  assumes "length perm = length cells" "length cells < 2 ^ 31 - 1"
  shows "(cells \<noteq> [] \<longrightarrow> (\<exists>r. sort_cells cells perm = Inr r))
       \<and> (cells = [] \<longrightarrow> sort_cells cells perm = Inl Out_of_bounds)"
proof (intro conjI impI)
  assume "cells \<noteq> []"
  then show "\<exists>r. sort_cells cells perm = Inr r"
    using assms sort_cells_nonempty by blast
next
  assume "cells = []"
  then show "sort_cells cells perm = Inl Out_of_bounds"
    using assms by (simp add: sort_cells_def int32_cast_def int32_add_def int32_range_def put_def)
qed

theorem sort_cells_in_bounds_witness:
  "length [0, 0, 0, 0, 0 :: int] = length [5, 3, 5, 1, 3 :: int]
   \<and> length [5, 3, 5, 1, 3 :: int] < 2 ^ 31 - 1
   \<and> (\<exists>r. sort_cells [5, 3, 5, 1, 3] [0, 0, 0, 0, 0] = Inr r)
   \<and> sort_cells [] [] = Inl Out_of_bounds"
  using sort_cells_in_bounds [of "[0, 0, 0, 0, 0]" "[5, 3, 5, 1, 3]"]
    sort_cells_in_bounds [of "[]" "[]"]
  by simp
section \<open>Proofs: the affine pull-back\<close>

lemma broadcast_loop:
  fixes s :: pull_back_state
  assumes n: "n \<le> length (slices (pb_J s))" "n \<le> length (slices (pb_K s))" "n \<le> length (pb_detJ s)"
    and ne: "slices (pb_J s) \<noteq> []" "slices (pb_K s) \<noteq> []" "pb_detJ s \<noteq> []"
  shows "\<exists>s'. for_loop [1..<n] broadcast_step s = Inr s'
           \<and> (\<forall>p < n. slices (pb_J s') ! p = slices (pb_J s) ! 0
                      \<and> slices (pb_K s') ! p = slices (pb_K s) ! 0
                      \<and> pb_detJ s' ! p = pb_detJ s ! 0)
           \<and> pb_calls s' = pb_calls s \<and> pb_X s' = pb_X s"
proof (cases "n = 0")
  case True
  then show ?thesis by simp
next
  case False
  define P where "P i t \<longleftrightarrow>
      length (slices (pb_J t)) = length (slices (pb_J s))
    \<and> length (slices (pb_K t)) = length (slices (pb_K s))
    \<and> length (pb_detJ t) = length (pb_detJ s)
    \<and> (\<forall>p < i. slices (pb_J t) ! p = slices (pb_J s) ! 0
                \<and> slices (pb_K t) ! p = slices (pb_K s) ! 0
                \<and> pb_detJ t ! p = pb_detJ s ! 0)
    \<and> pb_calls t = pb_calls s \<and> pb_X t = pb_X s" for i and t :: pull_back_state
  have init: "P 1 s" by (simp add: P_def)
  have step: "\<exists>t'. broadcast_step i t = Inr t' \<and> P (Suc i) t'"
    if "1 \<le> i" "i < n" "P i t" for i t
  proof -
    have len: "i < length (slices (pb_J t))" "i < length (slices (pb_K t))" "i < length (pb_detJ t)"
      using that n by (simp_all add: P_def)
    have z: "slices (pb_J t) ! 0 = slices (pb_J s) ! 0" "slices (pb_K t) ! 0 = slices (pb_K s) ! 0"
      "pb_detJ t ! 0 = pb_detJ s ! 0"
      using that by (simp_all add: P_def)
    let ?t' = "t\<lparr>pb_J := (pb_J t)\<lparr>slices := (slices (pb_J t))[i := slices (pb_J s) ! 0]\<rparr>,
                 pb_K := (pb_K t)\<lparr>slices := (slices (pb_K t))[i := slices (pb_K s) ! 0]\<rparr>,
                 pb_detJ := (pb_detJ t)[i := pb_detJ s ! 0]\<rparr>"
    have nz: "slices (pb_J t) \<noteq> []" "slices (pb_K t) \<noteq> []" "pb_detJ t \<noteq> []"
      using len by auto
    have "broadcast_step i t = Inr ?t'"
      using len z nz by (simp add: broadcast_step_def view3_def assign3_def get_def put_def)
    moreover have "P (Suc i) ?t'"
      using that len by (auto simp: P_def nth_list_update less_Suc_eq)
    ultimately show ?thesis by blast
  qed
  have "\<exists>s'. for_loop [1..<n] broadcast_step s = Inr s' \<and> P n s'"
    using init step False by (intro for_loop_upt_rule) simp_all
  then show ?thesis by (auto simp: P_def)
qed

lemma pull_back_affine_run:
  fixes J K :: tensor3 and cmap :: coordinate_element and ks :: kernels
    and coordinate_dofs :: mat
  defines "dphi_i \<equiv> dphi_view (cmap_tabulate cmap 1 (zeros2 1 (rows K))) (rows K) 0"
  defines "jac \<equiv> compute_jacobian ks dphi_i coordinate_dofs (zero_mat (slices J ! 0))"
  assumes aff: "is_affine cmap"
    and n: "length x \<le> length (slices J)" "length x \<le> length (slices K)" "length x \<le> length detJ"
    and ne: "slices J \<noteq> []" "slices K \<noteq> []" "detJ \<noteq> []"
  shows "\<exists>s. pull_back ks J K detJ x X coordinate_dofs cmap = Inr s
           \<and> (\<forall>p < length x.
                 slices (pb_J s) ! p = jac
               \<and> slices (pb_K s) ! p = compute_jacobian_inverse ks jac (slices K ! 0)
               \<and> pb_detJ s ! p = compute_jacobian_determinant ks jac)
           \<and> pb_calls s = [Tabulate 1 1, Compute_jacobian, Compute_jacobian_inverse,
                           Pull_back_affine, Compute_jacobian_determinant]"
proof -
  let ?inv = "compute_jacobian_inverse ks jac (slices K ! 0)"
  let ?det = "compute_jacobian_determinant ks jac"
  let ?s0 = "\<lparr>pb_J = (fill_zero J)\<lparr>slices := (slices (fill_zero J))[0 := jac]\<rparr>,
             pb_K = K\<lparr>slices := (slices K)[0 := ?inv]\<rparr>,
             pb_detJ = detJ[0 := ?det],
             pb_X = pull_back_affine ks X ?inv (x0 ks coordinate_dofs) x,
             pb_calls = [Tabulate 1 1, Compute_jacobian, Compute_jacobian_inverse,
                         Pull_back_affine, Compute_jacobian_determinant]\<rparr>"
  have fz: "slices (fill_zero J) ! 0 = zero_mat (slices J ! 0)"
    "length (slices (fill_zero J)) = length (slices J)"
    "slices (fill_zero J) \<noteq> []"
    using ne by (simp_all add: fill_zero_def nth_map [of 0])
  have run: "pull_back ks J K detJ x X coordinate_dofs cmap = for_loop [1..<length x] broadcast_step ?s0"
    using aff n ne fz
    by (simp add: pull_back_def Let_def view3_def assign3_def put_def jac_def dphi_i_def)
  have "\<exists>s'. for_loop [1..<length x] broadcast_step ?s0 = Inr s'
           \<and> (\<forall>p < length x. slices (pb_J s') ! p = slices (pb_J ?s0) ! 0
                      \<and> slices (pb_K s') ! p = slices (pb_K ?s0) ! 0
                      \<and> pb_detJ s' ! p = pb_detJ ?s0 ! 0)
           \<and> pb_calls s' = pb_calls ?s0 \<and> pb_X s' = pb_X ?s0"
    using n ne fz by (intro broadcast_loop) simp_all
  then show ?thesis
    using run ne fz by auto
qed

lemma pull_back_affine_Inr:
  assumes "is_affine cmap" "pull_back ks J K detJ x X coordinate_dofs cmap = Inr s"
  shows "length x \<le> length (slices J) \<and> length x \<le> length (slices K) \<and> length x \<le> length detJ
         \<and> slices J \<noteq> [] \<and> slices K \<noteq> [] \<and> detJ \<noteq> []"
proof -
  have a: "length x \<le> length (slices J) \<and> length x \<le> length (slices K) \<and> length x \<le> length detJ"
    using assms by (auto simp: pull_back_def Let_def split: if_splits)
  have "slices J \<noteq> []"
    using assms a by (auto simp: pull_back_def Let_def view3_def fill_zero_def)
  moreover have "slices K \<noteq> []"
    using assms a by (auto simp: pull_back_def Let_def view3_def and_then_def split: sum.splits if_splits)
  moreover have "detJ \<noteq> []"
    using assms a by (auto simp: pull_back_def Let_def put_def and_then_def split: sum.splits)
  ultimately show ?thesis using a by simp
qed

text \<open>
  Claim C3. For an affine coordinate map, \<open>pull_back\<close> computes the Jacobian, its inverse
  and its determinant once, from the tabulation at the reference origin, and every point
  slot \<open>0..N-1\<close> of \<open>J\<close>, \<open>K\<close> and \<open>detJ\<close> holds that one value; the sign of \<open>detJ\<close> is
  therefore the same at all points. The run succeeds whenever the three buffers hold the
  \<open>N\<close> slots asserted by the code and at least slot 0.
\<close>

theorem pull_back_affine_broadcast:
  fixes J K :: tensor3 and cmap :: coordinate_element and ks :: kernels
    and coordinate_dofs :: mat
  defines "dphi_i \<equiv> dphi_view (cmap_tabulate cmap 1 (zeros2 1 (rows K))) (rows K) 0"
  defines "jac \<equiv> compute_jacobian ks dphi_i coordinate_dofs (zero_mat (slices J ! 0))"
  assumes aff: "is_affine cmap"
  shows "(length x \<le> length (slices J) \<and> length x \<le> length (slices K) \<and> length x \<le> length detJ
           \<and> slices J \<noteq> [] \<and> slices K \<noteq> [] \<and> detJ \<noteq> []
          \<longrightarrow> (\<exists>s. pull_back ks J K detJ x X coordinate_dofs cmap = Inr s))
       \<and> (\<forall>s. pull_back ks J K detJ x X coordinate_dofs cmap = Inr s \<longrightarrow>
             (\<forall>p < length x.
                 slices (pb_J s) ! p = jac
               \<and> slices (pb_K s) ! p = compute_jacobian_inverse ks jac (slices K ! 0)
               \<and> pb_detJ s ! p = compute_jacobian_determinant ks jac)
           \<and> (\<forall>p < length x. \<forall>q < length x. sgn (pb_detJ s ! p) = sgn (pb_detJ s ! q))
           \<and> pb_calls s = [Tabulate 1 1, Compute_jacobian, Compute_jacobian_inverse,
                           Pull_back_affine, Compute_jacobian_determinant]
           \<and> count_list (pb_calls s) Compute_jacobian = 1)"
proof (rule conjI)
  show "length x \<le> length (slices J) \<and> length x \<le> length (slices K) \<and> length x \<le> length detJ
           \<and> slices J \<noteq> [] \<and> slices K \<noteq> [] \<and> detJ \<noteq> []
          \<longrightarrow> (\<exists>s. pull_back ks J K detJ x X coordinate_dofs cmap = Inr s)"
    using pull_back_affine_run [where ks=ks and J=J and K=K and detJ=detJ and x=x and X=X
        and coordinate_dofs=coordinate_dofs and cmap=cmap] aff by blast
next
  have "(\<forall>p < length x.
             slices (pb_J s) ! p = jac
           \<and> slices (pb_K s) ! p = compute_jacobian_inverse ks jac (slices K ! 0)
           \<and> pb_detJ s ! p = compute_jacobian_determinant ks jac)
       \<and> (\<forall>p < length x. \<forall>q < length x. sgn (pb_detJ s ! p) = sgn (pb_detJ s ! q))
       \<and> pb_calls s = [Tabulate 1 1, Compute_jacobian, Compute_jacobian_inverse,
                       Pull_back_affine, Compute_jacobian_determinant]
       \<and> count_list (pb_calls s) Compute_jacobian = 1"
    if r: "pull_back ks J K detJ x X coordinate_dofs cmap = Inr s" for s
  proof -
    have pre: "length x \<le> length (slices J) \<and> length x \<le> length (slices K)
        \<and> length x \<le> length detJ \<and> slices J \<noteq> [] \<and> slices K \<noteq> [] \<and> detJ \<noteq> []"
      using aff r by (rule pull_back_affine_Inr)
    then obtain s' where s': "pull_back ks J K detJ x X coordinate_dofs cmap = Inr s'"
      "\<forall>p < length x.
           slices (pb_J s') ! p = jac
         \<and> slices (pb_K s') ! p = compute_jacobian_inverse ks jac (slices K ! 0)
         \<and> pb_detJ s' ! p = compute_jacobian_determinant ks jac"
      "pb_calls s' = [Tabulate 1 1, Compute_jacobian, Compute_jacobian_inverse,
                      Pull_back_affine, Compute_jacobian_determinant]"
      using pull_back_affine_run [where ks=ks and J=J and K=K and detJ=detJ and x=x and X=X
          and coordinate_dofs=coordinate_dofs and cmap=cmap] aff
      unfolding jac_def dphi_i_def by blast
    have eq: "s = s'" using r s'(1) by simp
    show ?thesis using s'(2,3) eq by simp
  qed
  then show "\<forall>s. pull_back ks J K detJ x X coordinate_dofs cmap = Inr s \<longrightarrow>
             (\<forall>p < length x.
                 slices (pb_J s) ! p = jac
               \<and> slices (pb_K s) ! p = compute_jacobian_inverse ks jac (slices K ! 0)
               \<and> pb_detJ s ! p = compute_jacobian_determinant ks jac)
           \<and> (\<forall>p < length x. \<forall>q < length x. sgn (pb_detJ s ! p) = sgn (pb_detJ s ! q))
           \<and> pb_calls s = [Tabulate 1 1, Compute_jacobian, Compute_jacobian_inverse,
                           Pull_back_affine, Compute_jacobian_determinant]
           \<and> count_list (pb_calls s) Compute_jacobian = 1"
    by blast
qed

theorem pull_back_affine_broadcast_witness:
  "is_affine (sample_cmap True)
   \<and> (\<exists>s. pull_back sample_kernels sample_tensor sample_tensor [1, 2, 3] sample_points
            sample_points [[0], [1]] (sample_cmap True) = Inr s
        \<and> (\<forall>p < 3. slices (pb_J s) ! p = [[2]] \<and> slices (pb_K s) ! p = [[1 / 2]]
                    \<and> pb_detJ s ! p = 2)
        \<and> count_list (pb_calls s) Compute_jacobian = 1)"
proof -
  have aff: "is_affine (sample_cmap True)" by (simp add: sample_cmap_def)
  note t = pull_back_affine_broadcast [OF aff, where ks=sample_kernels and J=sample_tensor
        and K=sample_tensor and detJ="[1, 2, 3]" and x=sample_points and X=sample_points
        and coordinate_dofs="[[0], [1]]"]
  have pre: "length sample_points \<le> length (slices sample_tensor)
      \<and> length sample_points \<le> length (slices sample_tensor)
      \<and> length sample_points \<le> length [1, 2, 3 :: real]
      \<and> slices sample_tensor \<noteq> [] \<and> slices sample_tensor \<noteq> [] \<and> [1, 2, 3 :: real] \<noteq> []"
    by (simp add: sample_tensor_def sample_points_def)
  obtain s where s: "pull_back sample_kernels sample_tensor sample_tensor [1, 2, 3] sample_points
            sample_points [[0], [1]] (sample_cmap True) = Inr s"
    using t pre by blast
  have "(\<forall>p < length sample_points.
            slices (pb_J s) ! p = map (map (\<lambda>v. v + 2)) (zero_mat (slices sample_tensor ! 0))
          \<and> slices (pb_K s) ! p
            = map (map (\<lambda>v. 1 / v)) (map (map (\<lambda>v. v + 2)) (zero_mat (slices sample_tensor ! 0)))
          \<and> pb_detJ s ! p = map (map (\<lambda>v. v + 2)) (zero_mat (slices sample_tensor ! 0)) ! 0 ! 0)
        \<and> count_list (pb_calls s) Compute_jacobian = 1"
    using t s by (simp add: sample_kernels_def)
  then have "(\<forall>p < 3. slices (pb_J s) ! p = [[2]] \<and> slices (pb_K s) ! p = [[1 / 2]]
                    \<and> pb_detJ s ! p = 2)
        \<and> count_list (pb_calls s) Compute_jacobian = 1"
    by (simp add: sample_tensor_def sample_points_def zero_mat_def)
  then show ?thesis using aff s by blast
qed

section \<open>Proofs: the Hessian variant of the pull-back\<close>

lemma broadcast_loop_2:
  fixes s :: pull_back_2_state
  assumes n: "n \<le> length (slices (pb2_J s))" "n \<le> length (slices (pb2_K s))"
    and ne: "slices (pb2_J s) \<noteq> []" "slices (pb2_K s) \<noteq> []"
  shows "\<exists>s'. for_loop [1..<n] broadcast_step_2 s = Inr s'
           \<and> pb2_H s' = pb2_H s \<and> pb2_calls s' = pb2_calls s"
proof (cases "n = 0")
  case True
  then show ?thesis by simp
next
  case False
  define P where "P i t \<longleftrightarrow>
      length (slices (pb2_J t)) = length (slices (pb2_J s))
    \<and> length (slices (pb2_K t)) = length (slices (pb2_K s))
    \<and> pb2_H t = pb2_H s \<and> pb2_calls t = pb2_calls s" for i :: nat and t :: pull_back_2_state
  have init: "P 1 s" by (simp add: P_def)
  have step: "\<exists>t'. broadcast_step_2 i t = Inr t' \<and> P (Suc i) t'"
    if "1 \<le> i" "i < n" "P i t" for i t
  proof -
    have len: "i < length (slices (pb2_J t))" "i < length (slices (pb2_K t))"
      using that n by (simp_all add: P_def)
    then have nz: "slices (pb2_J t) \<noteq> []" "slices (pb2_K t) \<noteq> []" by auto
    show ?thesis
      using len nz ne that(3)
      by (simp add: broadcast_step_2_def view3_def assign3_def P_def)
  qed
  have "\<exists>s'. for_loop [1..<n] broadcast_step_2 s = Inr s' \<and> P n s'"
    using init step False by (intro for_loop_upt_rule) simp_all
  then show ?thesis by (auto simp: P_def)
qed

lemma pull_back_2_affine_run:
  assumes aff: "is_affine cmap"
    and n: "length x \<le> length (slices J)" "length x \<le> length (slices K)"
    and ne: "slices J \<noteq> []" "slices K \<noteq> []"
  shows "\<exists>s. pull_back_2 ks J K H x X coordinate_dofs cmap = Inr s
           \<and> pb2_H s = fill_zero H
           \<and> pb2_calls s = [Tabulate 1 1, Compute_jacobian, Compute_jacobian_inverse,
                            Pull_back_affine]"
proof -
  let ?jac = "compute_jacobian ks (dphi_view (cmap_tabulate cmap 1 (zeros2 1 (rows K))) (rows K) 0)
                coordinate_dofs (slices (fill_zero J) ! 0)"
  let ?inv = "compute_jacobian_inverse ks ?jac (slices K ! 0)"
  let ?s0 = "\<lparr>pb2_J = (fill_zero J)\<lparr>slices := (slices (fill_zero J))[0 := ?jac]\<rparr>,
             pb2_K = K\<lparr>slices := (slices K)[0 := ?inv]\<rparr>,
             pb2_H = H,
             pb2_X = pull_back_affine ks X ?inv (x0 ks coordinate_dofs) x,
             pb2_calls = [Tabulate 1 1, Compute_jacobian, Compute_jacobian_inverse,
                          Pull_back_affine]\<rparr>"
  have fz: "length (slices (fill_zero J)) = length (slices J)" "slices (fill_zero J) \<noteq> []"
    using ne by (simp_all add: fill_zero_def)
  have run: "pull_back_2 ks J K H x X coordinate_dofs cmap
             = and_then (for_loop [1..<length x] broadcast_step_2 ?s0)
                 (\<lambda>s. Inr (s\<lparr>pb2_H := fill_zero (pb2_H s)\<rparr>))"
    using aff n ne fz
    by (simp add: pull_back_2_def Let_def view3_def assign3_def)
  have "\<exists>s'. for_loop [1..<length x] broadcast_step_2 ?s0 = Inr s'
           \<and> pb2_H s' = pb2_H ?s0 \<and> pb2_calls s' = pb2_calls ?s0"
    using n ne fz by (intro broadcast_loop_2) simp_all
  then show ?thesis
    using run by auto
qed

lemma pull_back_2_affine_Inr:
  assumes "is_affine cmap" "pull_back_2 ks J K H x X coordinate_dofs cmap = Inr s"
  shows "length x \<le> length (slices J) \<and> length x \<le> length (slices K)
         \<and> slices J \<noteq> [] \<and> slices K \<noteq> []"
proof -
  have a: "length x \<le> length (slices J) \<and> length x \<le> length (slices K)"
    using assms by (auto simp: pull_back_2_def Let_def split: if_splits)
  have "slices J \<noteq> []"
    using assms a by (auto simp: pull_back_2_def Let_def view3_def fill_zero_def)
  moreover have "slices K \<noteq> []"
    using assms a by (auto simp: pull_back_2_def Let_def view3_def and_then_def split: sum.splits if_splits)
  ultimately show ?thesis using a by simp
qed

lemma fill_zero_entries:
  "\<forall>m \<in> set (slices (fill_zero H)). \<forall>r \<in> set m. \<forall>v \<in> set r. v = 0"
  by (auto simp: fill_zero_def zero_mat_def)

lemma pull_back_2_without_slot:
  assumes "is_affine cmap" "slices J = [] \<or> slices K = []"
  shows "pull_back_2 ks J K H x X coordinate_dofs cmap = Inl Assertion_failed
       \<or> pull_back_2 ks J K H x X coordinate_dofs cmap = Inl Out_of_bounds"
  using assms by (auto simp: pull_back_2_def Let_def view3_def fill_zero_def)

lemma pull_back_2_affine_independent:
  assumes "is_affine cmap"
  shows "pull_back_2 ks J K H x X coordinate_dofs
           (cmap\<lparr>cmap_tabulate := (\<lambda>n. if n = 1 then cmap_tabulate cmap 1 else tab n),
                  pull_back_nonaffine := newton\<rparr>)
         = pull_back_2 ks J K H x X coordinate_dofs cmap"
  using assms by (simp add: pull_back_2_def Let_def)

lemma ddphi_view_rows:
  "ddphi_view phi tdim p = map (\<lambda>d. map (\<lambda>b. b ! 0) (d ! p)) (drop (tdim + 1) phi)"
  by (simp add: ddphi_view_def)

lemma hessian_loop:
  fixes s :: pull_back_2_state
  assumes run: "for_loop [0..<n] (hessian_step ks phi tdim coordinate_dofs) s = Inr s'"
  shows "n \<le> length (slices (pb2_H s))
         \<and> length (slices (pb2_H s')) = length (slices (pb2_H s))
         \<and> (\<forall>p < n. slices (pb2_H s') ! p
            = compute_jacobian ks (ddphi_view phi tdim p) coordinate_dofs (slices (pb2_H s) ! p))
         \<and> (\<forall>p \<ge> n. slices (pb2_H s') ! p = slices (pb2_H s) ! p)
         \<and> take (length (pb2_calls s)) (pb2_calls s') = pb2_calls s"
proof -
  define P where "P i t \<longleftrightarrow>
      i \<le> length (slices (pb2_H s))
    \<and> length (slices (pb2_H t)) = length (slices (pb2_H s))
    \<and> (\<forall>p < i. slices (pb2_H t) ! p
            = compute_jacobian ks (ddphi_view phi tdim p) coordinate_dofs (slices (pb2_H s) ! p))
    \<and> (\<forall>p \<ge> i. slices (pb2_H t) ! p = slices (pb2_H s) ! p)
    \<and> take (length (pb2_calls s)) (pb2_calls t) = pb2_calls s"
    for i :: nat and t :: pull_back_2_state
  have init: "P 0 s" by (simp add: P_def)
  have step: "P (Suc i) t'"
    if "0 \<le> i" "i < n" "P i t" "hessian_step ks phi tdim coordinate_dofs i t = Inr t'" for i t t'
  proof -
    have i: "i < length (slices (pb2_H t))"
      using that(4) by (auto simp: hessian_step_def view3_def and_then_def split: sum.splits if_splits)
    have H': "pb2_H t' = (pb2_H t)\<lparr>slices := (slices (pb2_H t))
        [i := compute_jacobian ks (ddphi_view phi tdim i) coordinate_dofs (slices (pb2_H t) ! i)]\<rparr>"
      and c': "pb2_calls t' = pb2_calls t @ [Compute_jacobian, Compute_jacobian_inverse, Compute_jacobian]"
      using that(4)
      by (auto simp: hessian_step_def view3_def assign3_def and_then_def Let_def split: sum.splits if_splits)
    have "take (length (pb2_calls s)) (pb2_calls t') = pb2_calls s"
      using that(3) c' by (metis P_def append_eq_conv_conj append.assoc append_take_drop_id)
    then show ?thesis
      using that(3) i H' by (auto simp: P_def nth_list_update less_Suc_eq)
  qed
  have "P n s'"
  proof (rule for_loop_upt_partial [where a=0 and b=n and P=P])
    show "P 0 s" by (rule init)
    show "0 \<le> n" by simp
    show "for_loop [0..<n] (hessian_step ks phi tdim coordinate_dofs) s = Inr s'" by (rule run)
    show "\<And>i t t'. 0 \<le> i \<Longrightarrow> i < n \<Longrightarrow> P i t
            \<Longrightarrow> hessian_step ks phi tdim coordinate_dofs i t = Inr t' \<Longrightarrow> P (Suc i) t'"
      using step by blast
  qed
  then show ?thesis by (simp add: P_def)
qed

lemma hessian_loop_total:
  fixes s :: pull_back_2_state
  assumes "n \<le> length (slices (pb2_J s))" "n \<le> length (slices (pb2_K s))"
    "n \<le> length (slices (pb2_H s))"
  shows "\<exists>s'. for_loop [0..<n] (hessian_step ks phi tdim coordinate_dofs) s = Inr s'"
proof -
  define P where "P i t \<longleftrightarrow>
      length (slices (pb2_J t)) = length (slices (pb2_J s))
    \<and> length (slices (pb2_K t)) = length (slices (pb2_K s))
    \<and> length (slices (pb2_H t)) = length (slices (pb2_H s))"
    for i :: nat and t :: pull_back_2_state
  have "\<exists>s'. for_loop [0..<n] (hessian_step ks phi tdim coordinate_dofs) s = Inr s' \<and> P n s'"
  proof (rule for_loop_upt_rule [where P=P])
    show "P 0 s" by (simp add: P_def)
    show "0 \<le> n" by simp
    fix i and t :: pull_back_2_state
    assume "0 \<le> i" and i: "i < n" and t: "P i t"
    have "i < length (slices (pb2_J t))" "i < length (slices (pb2_K t))"
      "i < length (slices (pb2_H t))"
      using i t assms by (simp_all add: P_def)
    then show "\<exists>t'. hessian_step ks phi tdim coordinate_dofs i t = Inr t' \<and> P (Suc i) t'"
      using t by (simp add: hessian_step_def view3_def assign3_def Let_def P_def)
  qed
  then show ?thesis by blast
qed

lemma pull_back_2_nonaffine_total:
  assumes naff: "\<not> is_affine cmap"
    and n: "length x \<le> length (slices J)" "length x \<le> length (slices K)"
    and m: "length (pull_back_nonaffine cmap X x coordinate_dofs) \<le> length (slices J)"
      "length (pull_back_nonaffine cmap X x coordinate_dofs) \<le> length (slices K)"
      "length (pull_back_nonaffine cmap X x coordinate_dofs) \<le> length (slices H)"
  shows "\<exists>s. pull_back_2 ks J K H x X coordinate_dofs cmap = Inr s"
proof -
  let ?X = "pull_back_nonaffine cmap X x coordinate_dofs"
  let ?s0 = "\<lparr>pb2_J = fill_zero J, pb2_K = K, pb2_H = fill_zero H, pb2_X = ?X,
             pb2_calls = [Tabulate 1 1, Pull_back_nonaffine, Tabulate 2 (length ?X)]\<rparr>"
  have "pull_back_2 ks J K H x X coordinate_dofs cmap
        = for_loop [0..<length ?X] (hessian_step ks (cmap_tabulate cmap 2 ?X) (rows K) coordinate_dofs) ?s0"
    using naff n by (simp add: pull_back_2_def Let_def)
  moreover have "\<exists>s. for_loop [0..<length ?X]
       (hessian_step ks (cmap_tabulate cmap 2 ?X) (rows K) coordinate_dofs) ?s0 = Inr s"
    using m by (intro hessian_loop_total) (simp_all add: fill_zero_def)
  ultimately show ?thesis by simp
qed

lemma pull_back_2_nonaffine_run:
  assumes naff: "\<not> is_affine cmap"
    and r: "pull_back_2 ks J K H x X coordinate_dofs cmap = Inr s"
  shows "take 3 (pb2_calls s)
           = [Tabulate 1 1, Pull_back_nonaffine,
              Tabulate 2 (length (pull_back_nonaffine cmap X x coordinate_dofs))]
       \<and> length (slices (pb2_H s)) = length (slices H)
       \<and> (\<forall>p < length (pull_back_nonaffine cmap X x coordinate_dofs).
             slices (pb2_H s) ! p
             = compute_jacobian ks
                 (map (\<lambda>d. map (\<lambda>b. b ! 0) (d ! p))
                    (drop (rows K + 1)
                       (cmap_tabulate cmap 2 (pull_back_nonaffine cmap X x coordinate_dofs))))
                 coordinate_dofs (map (map (\<lambda>_. 0)) (slices H ! p)))
       \<and> (\<forall>p. length (pull_back_nonaffine cmap X x coordinate_dofs) \<le> p
               \<and> p < length (slices H)
             \<longrightarrow> slices (pb2_H s) ! p = map (map (\<lambda>_. 0)) (slices H ! p))"
proof -
  let ?X = "pull_back_nonaffine cmap X x coordinate_dofs"
  let ?s0 = "\<lparr>pb2_J = fill_zero J, pb2_K = K, pb2_H = fill_zero H, pb2_X = ?X,
             pb2_calls = [Tabulate 1 1, Pull_back_nonaffine, Tabulate 2 (length ?X)]\<rparr>"
  have "for_loop [0..<length ?X] (hessian_step ks (cmap_tabulate cmap 2 ?X) (rows K) coordinate_dofs) ?s0
        = Inr s"
    using naff r by (simp add: pull_back_2_def Let_def split: if_splits)
  from hessian_loop [OF this]
  have le: "length ?X \<le> length (slices H)"
    and len: "length (slices (pb2_H s)) = length (slices H)"
    and filled: "\<And>p. p < length ?X \<Longrightarrow> slices (pb2_H s) ! p
            = compute_jacobian ks (ddphi_view (cmap_tabulate cmap 2 ?X) (rows K) p)
                coordinate_dofs (slices (fill_zero H) ! p)"
    and rest: "\<And>p. length ?X \<le> p \<Longrightarrow> slices (pb2_H s) ! p = slices (fill_zero H) ! p"
    and calls: "take 3 (pb2_calls s) = [Tabulate 1 1, Pull_back_nonaffine, Tabulate 2 (length ?X)]"
    by (simp_all add: fill_zero_def numeral_3_eq_3)
  have z: "slices (fill_zero H) ! p = map (map (\<lambda>_. 0)) (slices H ! p)"
    if "p < length (slices H)" for p
    using that by (simp add: fill_zero_def zero_mat_def)
  show ?thesis
    using le len filled rest calls z by (simp add: ddphi_view_rows)
qed

text \<open>
  Claim C7. For an affine coordinate map and every set of points, with buffers \<open>J\<close> and \<open>K\<close>
  that hold a slot for each point and at least one slot, \<open>pull_back_2\<close> returns; the
  Hessian buffer \<open>H\<close> that it returns has the shape it was given and every entry zero; the
  only calls it makes are the first-order tabulation at the reference origin, one
  Jacobian, one inverse and the affine pull-back; and its whole result is the same
  whatever the solver of the coordinate map and its tabulations of an order other than
  one are: neither a second-order tabulation nor the Newton iteration contributes to it.
  For a non-affine map, with buffers that hold a slot for each pulled-back point, it
  returns; the calls start with the Newton pull-back and the second-order tabulation at
  the pulled-back points; slot \<open>p\<close> of \<open>H\<close> is the kernel \<open>compute_jacobian\<close> applied to the
  rows \<open>tdim + 1, \<dots>\<close> of that tabulation at point \<open>p\<close>, to the cell geometry and to a zero
  matrix; and the slots beyond the points are zero.
\<close>

theorem pull_back_2_hessian:
  "(is_affine cmap \<longrightarrow>
      (length x \<le> length (slices J) \<and> length x \<le> length (slices K)
         \<and> slices J \<noteq> [] \<and> slices K \<noteq> []
       \<longrightarrow> (\<exists>s. pull_back_2 ks J K H x X coordinate_dofs cmap = Inr s))
    \<and> (\<forall>s. pull_back_2 ks J K H x X coordinate_dofs cmap = Inr s \<longrightarrow>
           pb2_H s = fill_zero H
         \<and> length (slices (pb2_H s)) = length (slices H)
         \<and> (\<forall>p < length (slices H). slices (pb2_H s) ! p = map (map (\<lambda>_. 0)) (slices H ! p))
         \<and> (\<forall>m \<in> set (slices (pb2_H s)). \<forall>r \<in> set m. \<forall>v \<in> set r. v = 0)
         \<and> pb2_calls s = [Tabulate 1 1, Compute_jacobian, Compute_jacobian_inverse,
                          Pull_back_affine]
         \<and> Pull_back_nonaffine \<notin> set (pb2_calls s)
         \<and> (\<forall>k. Tabulate 2 k \<notin> set (pb2_calls s)))
    \<and> pull_back_2 ks J K H x X coordinate_dofs
         (cmap\<lparr>cmap_tabulate := (\<lambda>n. if n = 1 then cmap_tabulate cmap 1 else tab n),
                pull_back_nonaffine := newton\<rparr>)
       = pull_back_2 ks J K H x X coordinate_dofs cmap)
   \<and> (\<not> is_affine cmap \<longrightarrow>
      (length x \<le> length (slices J) \<and> length x \<le> length (slices K)
         \<and> length (pull_back_nonaffine cmap X x coordinate_dofs) \<le> length (slices J)
         \<and> length (pull_back_nonaffine cmap X x coordinate_dofs) \<le> length (slices K)
         \<and> length (pull_back_nonaffine cmap X x coordinate_dofs) \<le> length (slices H)
       \<longrightarrow> (\<exists>s. pull_back_2 ks J K H x X coordinate_dofs cmap = Inr s))
    \<and> (\<forall>s. pull_back_2 ks J K H x X coordinate_dofs cmap = Inr s \<longrightarrow>
           take 3 (pb2_calls s)
             = [Tabulate 1 1, Pull_back_nonaffine,
                Tabulate 2 (length (pull_back_nonaffine cmap X x coordinate_dofs))]
         \<and> length (slices (pb2_H s)) = length (slices H)
         \<and> (\<forall>p < length (pull_back_nonaffine cmap X x coordinate_dofs).
               slices (pb2_H s) ! p
               = compute_jacobian ks
                   (map (\<lambda>d. map (\<lambda>b. b ! 0) (d ! p))
                      (drop (rows K + 1)
                         (cmap_tabulate cmap 2 (pull_back_nonaffine cmap X x coordinate_dofs))))
                   coordinate_dofs (map (map (\<lambda>_. 0)) (slices H ! p)))
         \<and> (\<forall>p. length (pull_back_nonaffine cmap X x coordinate_dofs) \<le> p
                 \<and> p < length (slices H)
               \<longrightarrow> slices (pb2_H s) ! p = map (map (\<lambda>_. 0)) (slices H ! p))))"
proof (intro conjI impI)
  assume "is_affine cmap"
    and "length x \<le> length (slices J) \<and> length x \<le> length (slices K)
         \<and> slices J \<noteq> [] \<and> slices K \<noteq> []"
  then show "\<exists>s. pull_back_2 ks J K H x X coordinate_dofs cmap = Inr s"
    using pull_back_2_affine_run [where ks=ks and J=J and K=K and H=H and x=x and X=X
        and coordinate_dofs=coordinate_dofs and cmap=cmap] by blast
next
  assume aff: "is_affine cmap"
  have "pb2_H s = fill_zero H
         \<and> length (slices (pb2_H s)) = length (slices H)
         \<and> (\<forall>p < length (slices H). slices (pb2_H s) ! p = map (map (\<lambda>_. 0)) (slices H ! p))
         \<and> (\<forall>m \<in> set (slices (pb2_H s)). \<forall>r \<in> set m. \<forall>v \<in> set r. v = 0)
         \<and> pb2_calls s = [Tabulate 1 1, Compute_jacobian, Compute_jacobian_inverse,
                          Pull_back_affine]
         \<and> Pull_back_nonaffine \<notin> set (pb2_calls s)
         \<and> (\<forall>k. Tabulate 2 k \<notin> set (pb2_calls s))"
    if r: "pull_back_2 ks J K H x X coordinate_dofs cmap = Inr s" for s
  proof -
    have "length x \<le> length (slices J) \<and> length x \<le> length (slices K)
         \<and> slices J \<noteq> [] \<and> slices K \<noteq> []"
      using aff r by (rule pull_back_2_affine_Inr)
    then obtain s' where s': "pull_back_2 ks J K H x X coordinate_dofs cmap = Inr s'"
      "pb2_H s' = fill_zero H"
      "pb2_calls s' = [Tabulate 1 1, Compute_jacobian, Compute_jacobian_inverse, Pull_back_affine]"
      using pull_back_2_affine_run [where ks=ks and J=J and K=K and H=H and x=x and X=X
          and coordinate_dofs=coordinate_dofs and cmap=cmap] aff by blast
    have eq: "s = s'" using r s'(1) by simp
    have "length (slices (fill_zero H)) = length (slices H)" by (simp add: fill_zero_def)
    moreover have "\<forall>p < length (slices H).
        slices (fill_zero H) ! p = map (map (\<lambda>_. 0)) (slices H ! p)"
      by (simp add: fill_zero_def zero_mat_def)
    ultimately show ?thesis using s'(2,3) eq fill_zero_entries [of H] by simp
  qed
  then show "\<forall>s. pull_back_2 ks J K H x X coordinate_dofs cmap = Inr s \<longrightarrow>
           pb2_H s = fill_zero H
         \<and> length (slices (pb2_H s)) = length (slices H)
         \<and> (\<forall>p < length (slices H). slices (pb2_H s) ! p = map (map (\<lambda>_. 0)) (slices H ! p))
         \<and> (\<forall>m \<in> set (slices (pb2_H s)). \<forall>r \<in> set m. \<forall>v \<in> set r. v = 0)
         \<and> pb2_calls s = [Tabulate 1 1, Compute_jacobian, Compute_jacobian_inverse,
                          Pull_back_affine]
         \<and> Pull_back_nonaffine \<notin> set (pb2_calls s)
         \<and> (\<forall>k. Tabulate 2 k \<notin> set (pb2_calls s))"
    by blast
next
  assume "is_affine cmap"
  then show "pull_back_2 ks J K H x X coordinate_dofs
         (cmap\<lparr>cmap_tabulate := (\<lambda>n. if n = 1 then cmap_tabulate cmap 1 else tab n),
                pull_back_nonaffine := newton\<rparr>)
       = pull_back_2 ks J K H x X coordinate_dofs cmap"
    by (rule pull_back_2_affine_independent)
next
  assume "\<not> is_affine cmap"
    and "length x \<le> length (slices J) \<and> length x \<le> length (slices K)
         \<and> length (pull_back_nonaffine cmap X x coordinate_dofs) \<le> length (slices J)
         \<and> length (pull_back_nonaffine cmap X x coordinate_dofs) \<le> length (slices K)
         \<and> length (pull_back_nonaffine cmap X x coordinate_dofs) \<le> length (slices H)"
  then show "\<exists>s. pull_back_2 ks J K H x X coordinate_dofs cmap = Inr s"
    using pull_back_2_nonaffine_total [where ks=ks and J=J and K=K and H=H and x=x and X=X
        and coordinate_dofs=coordinate_dofs and cmap=cmap] by blast
next
  assume "\<not> is_affine cmap"
  then show "\<forall>s. pull_back_2 ks J K H x X coordinate_dofs cmap = Inr s \<longrightarrow>
           take 3 (pb2_calls s)
             = [Tabulate 1 1, Pull_back_nonaffine,
                Tabulate 2 (length (pull_back_nonaffine cmap X x coordinate_dofs))]
         \<and> length (slices (pb2_H s)) = length (slices H)
         \<and> (\<forall>p < length (pull_back_nonaffine cmap X x coordinate_dofs).
               slices (pb2_H s) ! p
               = compute_jacobian ks
                   (map (\<lambda>d. map (\<lambda>b. b ! 0) (d ! p))
                      (drop (rows K + 1)
                         (cmap_tabulate cmap 2 (pull_back_nonaffine cmap X x coordinate_dofs))))
                   coordinate_dofs (map (map (\<lambda>_. 0)) (slices H ! p)))
         \<and> (\<forall>p. length (pull_back_nonaffine cmap X x coordinate_dofs) \<le> p
                 \<and> p < length (slices H)
               \<longrightarrow> slices (pb2_H s) ! p = map (map (\<lambda>_. 0)) (slices H ! p))"
    using pull_back_2_nonaffine_run [where ks=ks and J=J and K=K and H=H and x=x and X=X
        and coordinate_dofs=coordinate_dofs and cmap=cmap] by blast
qed

lemma sample_pull_back_2_affine:
  "pull_back_2 sample_kernels sample_tensor sample_tensor sample_tensor sample_points
     sample_points [[0], [1]] (sample_cmap True)
   = Inr \<lparr>pb2_J = \<lparr>rows = 1, cols = 1, slices = [[[2]], [[2]], [[2]]]\<rparr>,
          pb2_K = \<lparr>rows = 1, cols = 1, slices = [[[1 / 2]], [[1 / 2]], [[1 / 2]]]\<rparr>,
          pb2_H = \<lparr>rows = 1, cols = 1, slices = [[[0]], [[0]], [[0]]]\<rparr>,
          pb2_X = sample_points,
          pb2_calls = [Tabulate 1 1, Compute_jacobian, Compute_jacobian_inverse,
                       Pull_back_affine]\<rparr>"
  by (simp add: pull_back_2_def sample_kernels_def sample_cmap_def sample_tensor_def
      sample_points_def fill_zero_def zero_mat_def view3_def assign3_def Let_def
      broadcast_step_2_def upt_rec [of 1] upt_rec [of 2])

text \<open>
  The non-affine run on the cubic element over the interval from 0 to 1, at the reference
  points \<open>1/2\<close> and \<open>1\<close>: the Jacobian is \<open>3 X^2\<close> and the second derivative is \<open>6 X\<close>.
\<close>

lemma sample_pull_back_2_nonaffine:
  "pull_back_2 product_kernels sample_tensor sample_tensor sample_tensor [[1 / 8], [1]]
     [[1 / 2], [1]] [[0], [1]] cubic_cmap
   = Inr \<lparr>pb2_J = \<lparr>rows = 1, cols = 1, slices = [[[3 / 4]], [[3]], [[0]]]\<rparr>,
          pb2_K = \<lparr>rows = 1, cols = 1, slices = [[[4 / 3]], [[1 / 3]], [[9]]]\<rparr>,
          pb2_H = \<lparr>rows = 1, cols = 1, slices = [[[3]], [[6]], [[0]]]\<rparr>,
          pb2_X = [[1 / 2], [1]],
          pb2_calls = [Tabulate 1 1, Pull_back_nonaffine, Tabulate 2 2,
                       Compute_jacobian, Compute_jacobian_inverse, Compute_jacobian,
                       Compute_jacobian, Compute_jacobian_inverse, Compute_jacobian]\<rparr>"
  by (simp add: pull_back_2_def product_kernels_def cubic_cmap_def sample_tensor_def
      fill_zero_def zero_mat_def view3_def assign3_def Let_def hessian_step_def
      dphi_view_def ddphi_view_def upt_rec [of 0] upt_rec [of 1] upt_rec [of 2]
      power2_eq_square)

lemma three_slots: "length xs = 3 \<Longrightarrow> xs = [xs ! 0, xs ! 1, xs ! 2]"
  by (auto simp: numeral_3_eq_3 numeral_2_eq_2 length_Suc_conv)

theorem pull_back_2_hessian_witness:
  "is_affine (sample_cmap True) \<and> \<not> is_affine cubic_cmap
   \<and> (\<exists>s. pull_back_2 sample_kernels sample_tensor sample_tensor sample_tensor sample_points
             sample_points [[0], [1]] (sample_cmap True) = Inr s
         \<and> slices (pb2_H s) = [[[0]], [[0]], [[0]]]
         \<and> pb2_calls s = [Tabulate 1 1, Compute_jacobian, Compute_jacobian_inverse,
                          Pull_back_affine]
         \<and> pull_back_2 sample_kernels sample_tensor sample_tensor sample_tensor sample_points
             sample_points [[0], [1]]
             ((sample_cmap True)
                \<lparr>cmap_tabulate := (\<lambda>n. if n = 1 then cmap_tabulate (sample_cmap True) 1
                                        else (\<lambda>X. [])),
                 pull_back_nonaffine := (\<lambda>X x cell_geometry. [])\<rparr>) = Inr s)
   \<and> (\<exists>s. pull_back_2 product_kernels sample_tensor sample_tensor sample_tensor
             [[1 / 8], [1]] [[1 / 2], [1]] [[0], [1]] cubic_cmap = Inr s
         \<and> take 3 (pb2_calls s) = [Tabulate 1 1, Pull_back_nonaffine, Tabulate 2 2]
         \<and> slices (pb2_H s) = [[[3]], [[6]], [[0]]])"
proof -
  have aff: "is_affine (sample_cmap True)" "\<not> is_affine cubic_cmap"
    by (simp_all add: sample_cmap_def cubic_cmap_def)
  note a = pull_back_2_hessian [where ks=sample_kernels and J=sample_tensor and K=sample_tensor
      and H=sample_tensor and x=sample_points and X=sample_points and coordinate_dofs="[[0], [1]]"
      and cmap="sample_cmap True" and tab="\<lambda>n X. []" and newton="\<lambda>X x cell_geometry. []"]
  note b = pull_back_2_hessian [where ks=product_kernels and J=sample_tensor and K=sample_tensor
      and H=sample_tensor and x="[[1 / 8], [1]]" and X="[[1 / 2], [1]]"
      and coordinate_dofs="[[0], [1]]" and cmap=cubic_cmap]
  have pre: "length sample_points \<le> length (slices sample_tensor)
      \<and> slices sample_tensor \<noteq> []"
    by (simp add: sample_points_def sample_tensor_def)
  obtain s where s: "pull_back_2 sample_kernels sample_tensor sample_tensor sample_tensor
      sample_points sample_points [[0], [1]] (sample_cmap True) = Inr s"
    using a aff(1) pre by blast
  have sH: "pb2_H s = fill_zero sample_tensor"
    and sc: "pb2_calls s = [Tabulate 1 1, Compute_jacobian, Compute_jacobian_inverse,
                            Pull_back_affine]"
    and si: "pull_back_2 sample_kernels sample_tensor sample_tensor sample_tensor sample_points
             sample_points [[0], [1]]
             ((sample_cmap True)
                \<lparr>cmap_tabulate := (\<lambda>n. if n = 1 then cmap_tabulate (sample_cmap True) 1
                                        else (\<lambda>X. [])),
                 pull_back_nonaffine := (\<lambda>X x cell_geometry. [])\<rparr>) = Inr s"
    using a aff(1) s by simp_all
  have sz: "slices (pb2_H s) = [[[0]], [[0]], [[0]]]"
    using sH by (simp add: fill_zero_def zero_mat_def sample_tensor_def)
  have X: "pull_back_nonaffine cubic_cmap [[1 / 2], [1]] [[1 / 8], [1]] [[0], [1]] = [[1 / 2], [1]]"
    by (simp add: cubic_cmap_def)
  have pre': "length [[1 / 8], [1 :: real]] \<le> length (slices sample_tensor)
      \<and> length (pull_back_nonaffine cubic_cmap [[1 / 2], [1]] [[1 / 8], [1]] [[0], [1]])
          \<le> length (slices sample_tensor)"
    by (simp add: X sample_tensor_def)
  obtain t where t: "pull_back_2 product_kernels sample_tensor sample_tensor sample_tensor
      [[1 / 8], [1]] [[1 / 2], [1]] [[0], [1]] cubic_cmap = Inr t"
    using b aff(2) pre' by blast
  have tc: "take 3 (pb2_calls t) = [Tabulate 1 1, Pull_back_nonaffine, Tabulate 2 2]"
    and tl: "length (slices (pb2_H t)) = 3"
    using b aff(2) t by (simp_all add: X sample_tensor_def)
  have filled: "\<forall>p < 2. slices (pb2_H t) ! p
         = compute_jacobian product_kernels
             (map (\<lambda>d. map (\<lambda>b. b ! 0) (d ! p))
                (drop (rows sample_tensor + 1) (cmap_tabulate cubic_cmap 2 [[1 / 2], [1]])))
             [[0], [1]] (map (map (\<lambda>_. 0)) (slices sample_tensor ! p))"
    using b aff(2) t by (simp add: X)
  have t0: "slices (pb2_H t) ! 0 = [[3]]"
    using filled
    by (simp add: product_kernels_def cubic_cmap_def sample_tensor_def upt_rec [of 0]
        upt_rec [of 1] upt_rec [of 2])
  have t1: "slices (pb2_H t) ! 1 = [[6]]"
    using filled
    by (simp add: product_kernels_def cubic_cmap_def sample_tensor_def upt_rec [of 0]
        upt_rec [of 1] upt_rec [of 2])
  have "2 < length (slices sample_tensor)
        \<longrightarrow> slices (pb2_H t) ! 2 = map (map (\<lambda>_. 0)) (slices sample_tensor ! 2)"
    using b aff(2) t by (simp add: X)
  then have t2: "slices (pb2_H t) ! 2 = [[0]]"
    by (simp add: sample_tensor_def)
  have "slices (pb2_H t) = [slices (pb2_H t) ! 0, slices (pb2_H t) ! 1, slices (pb2_H t) ! 2]"
    using tl by (rule three_slots)
  then have "slices (pb2_H t) = [[[3]], [[6]], [[0]]]"
    using t0 t1 t2 by simp
  then show ?thesis using aff s sz sc si t tc by blast
qed

section \<open>Proofs: the sentinel index of the basis evaluator and the facet Jacobian\<close>

lemma zeros4_entries:
  "length (values4 (zeros4 a b c d)) = a
   \<and> (\<forall>t \<in> set (values4 (zeros4 a b c d)). length t = b
        \<and> (\<forall>m \<in> set t. length m = c
             \<and> (\<forall>r \<in> set m. length r = d \<and> (\<forall>v \<in> set r. v = 0))))"
  by (auto simp: zeros4_def)

text \<open>
  Claim C4. With a negative entity index, and under the assertions with which the
  function starts (at most first derivatives, buffers of at least one slot per point) and a
  non-zero block size, \<open>get_basis_functions\<close> returns without calling the coordinate map
  or the element and without touching \<open>J\<close>, \<open>K\<close> and \<open>detJ\<close>; the returned array has the
  shape \<open>(num_derivatives * tdim + 1, num_points, space_dimension * block_size,
  value_size * block_size)\<close>, where the last two sizes are those of one block, and all of
  its entries are zero.
\<close>

theorem get_basis_functions_negative_index:
  assumes "index < 0"
    and "num_derivatives < 2"
    and "length x \<le> length (slices J)" "length x \<le> length (slices K)" "length x \<le> length detJ"
    and "block_size element \<noteq> 0"
  shows "\<exists>r. get_basis_functions ks J K detJ x coordinate_dofs index perm element cmap
               num_derivatives = Inr r
           \<and> shape4 (gb_basis r)
             = (num_derivatives * rows K + 1, length x,
                space_dimension element div block_size element * block_size element,
                value_size element div block_size element * block_size element)
           \<and> length (values4 (gb_basis r)) = num_derivatives * rows K + 1
           \<and> (\<forall>t \<in> set (values4 (gb_basis r)). length t = length x
                \<and> (\<forall>m \<in> set t.
                     length m = space_dimension element div block_size element * block_size element
                     \<and> (\<forall>r \<in> set m.
                          length r = value_size element div block_size element * block_size element
                          \<and> (\<forall>v \<in> set r. v = 0))))
           \<and> gb_J r = J \<and> gb_K r = K \<and> gb_detJ r = detJ \<and> gb_calls r = []"
proof -
  let ?a = "num_derivatives * rows K + 1"
  let ?c = "space_dimension element div block_size element * block_size element"
  let ?d = "value_size element div block_size element * block_size element"
  have "get_basis_functions ks J K detJ x coordinate_dofs index perm element cmap num_derivatives
        = Inr \<lparr>gb_basis = zeros4 ?a (length x) ?c ?d, gb_J = J, gb_K = K, gb_detJ = detJ,
               gb_calls = []\<rparr>"
    using assms by (simp add: get_basis_functions_def Let_def)
  moreover have "shape4 (zeros4 ?a (length x) ?c ?d) = (?a, length x, ?c, ?d)"
    by (simp add: zeros4_def)
  ultimately show ?thesis
    using zeros4_entries [of ?a "length x" ?c ?d] by simp
qed

theorem get_basis_functions_negative_index_witness:
  "(-1 :: int) < 0 \<and> (1 :: nat) < 2
   \<and> length sample_points \<le> length (slices sample_tensor)
   \<and> length sample_points \<le> length [1, 2, 3 :: real]
   \<and> block_size sample_element \<noteq> 0
   \<and> (\<exists>r. get_basis_functions sample_kernels sample_tensor sample_tensor [1, 2, 3] sample_points
             [[0], [1]] (-1) 0 sample_element (sample_cmap True) 1 = Inr r
         \<and> shape4 (gb_basis r) = (2, 3, 4, 2)
         \<and> gb_J r = sample_tensor \<and> gb_detJ r = [1, 2, 3])"
proof -
  have h: "(-1 :: int) < 0" "(1 :: nat) < 2"
    "length sample_points \<le> length (slices sample_tensor)"
    "length sample_points \<le> length [1, 2, 3 :: real]"
    "block_size sample_element \<noteq> 0"
    by (simp_all add: sample_points_def sample_tensor_def sample_element_def)
  obtain r where r: "get_basis_functions sample_kernels sample_tensor sample_tensor [1, 2, 3]
        sample_points [[0], [1]] (-1) 0 sample_element (sample_cmap True) 1 = Inr r"
    "shape4 (gb_basis r)
       = (1 * rows sample_tensor + 1, length sample_points,
          space_dimension sample_element div block_size sample_element * block_size sample_element,
          value_size sample_element div block_size sample_element * block_size sample_element)"
    "gb_J r = sample_tensor" "gb_detJ r = [1, 2, 3]"
    using get_basis_functions_negative_index [OF h(1) h(2) h(3) h(3) h(4) h(5),
        where ks=sample_kernels and coordinate_dofs="[[0], [1]]" and perm=0
          and cmap="sample_cmap True"]
    by blast
  have "shape4 (gb_basis r) = (2, 3, 4, 2)"
    using r(2) by (simp add: sample_tensor_def sample_points_def sample_element_def)
  then show ?thesis using h r by blast
qed

text \<open>
  Claim C5. The function returned by \<open>get_update_jacobian_dependencies\<close> is chosen by the
  affinity of the coordinate map alone. For an affine map it returns the determinant it
  is given and leaves \<open>J\<close>, \<open>K\<close> and \<open>J_tot\<close> as they are. For a non-affine map it is
  \<open>compute_facet_jacobians\<close>: the Jacobian is recomputed from the tabulation at the point
  \<open>q\<close> and the cell geometry, then its inverse, then \<open>J_tot\<close> as the product of \<open>J\<close> with the
  reference-facet Jacobian \<open>J_f\<close>, and the result is the absolute value of the determinant
  of \<open>J_tot\<close>, whatever determinant was passed in.
\<close>

theorem update_jacobian_dependencies_selection:
  fixes J K J_tot J_f coords :: mat and ks :: kernels and cmap :: coordinate_element
    and q :: nat and dphi :: "real list list list"
  defines "g \<equiv> get_update_jacobian_dependencies ks cmap"
  defines "J' \<equiv> compute_jacobian ks (map (\<lambda>d. d ! q) dphi) (map (take (length J)) coords)
                  (zero_mat J)"
  defines "J_tot' \<equiv> dot ks J' J_f (zero_mat J_tot)"
  shows "(is_affine cmap \<longrightarrow> g q detJ J K J_tot J_f dphi coords = Inr (detJ, J, K, J_tot))
       \<and> (\<not> is_affine cmap \<longrightarrow>
            g = (\<lambda>q detJ. compute_facet_jacobians ks q)
          \<and> g q detJ J K J_tot J_f dphi coords = g q other_detJ J K J_tot J_f dphi coords
          \<and> ((\<forall>d \<in> set dphi. q < length d) \<longrightarrow>
               g q detJ J K J_tot J_f dphi coords
               = Inr (\<bar>compute_jacobian_determinant ks J_tot'\<bar>, J',
                      compute_jacobian_inverse ks J' K, J_tot')))"
  by (simp add: g_def J'_def J_tot'_def get_update_jacobian_dependencies_def
      compute_facet_jacobians_def Let_def)

lemma sample_facet_jacobian:
  "get_update_jacobian_dependencies sample_kernels (sample_cmap False)
     0 5 [[1]] [[1]] [[1]] [[3]] [[[1, 2]]] [[1, 2, 3]] = Inr (6, [[2]], [[1 / 2]], [[6]])"
  by (simp add: get_update_jacobian_dependencies_def compute_facet_jacobians_def
      sample_kernels_def sample_cmap_def zero_mat_def Let_def)

theorem update_jacobian_dependencies_selection_witness:
  "is_affine (sample_cmap True) \<and> \<not> is_affine (sample_cmap False)
   \<and> list_all (\<lambda>d. 0 < length d) [[[1, 2 :: real]]]
   \<and> get_update_jacobian_dependencies sample_kernels (sample_cmap True)
       0 5 [[1]] [[1]] [[1]] [[3]] [[[1, 2]]] [[1, 2, 3]] = Inr (5, [[1]], [[1]], [[1]])
   \<and> get_update_jacobian_dependencies sample_kernels (sample_cmap False)
       0 5 [[1]] [[1]] [[1]] [[3]] [[[1, 2]]] [[1, 2, 3]] = Inr (6, [[2]], [[1 / 2]], [[6]])
   \<and> get_update_jacobian_dependencies sample_kernels (sample_cmap False)
       0 7 [[1]] [[1]] [[1]] [[3]] [[[1, 2]]] [[1, 2, 3]] = Inr (6, [[2]], [[1 / 2]], [[6]])"
proof -
  have aff: "is_affine (sample_cmap True)" "\<not> is_affine (sample_cmap False)"
    by (simp_all add: sample_cmap_def)
  note t = update_jacobian_dependencies_selection [where ks=sample_kernels and q=0
      and detJ=5 and other_detJ=7 and J="[[1]]" and K="[[1]]" and J_tot="[[1]]" and J_f="[[3]]"
      and dphi="[[[1, 2]]]" and coords="[[1, 2, 3]]"]
  have a: "get_update_jacobian_dependencies sample_kernels (sample_cmap True)
       0 5 [[1]] [[1]] [[1]] [[3]] [[[1, 2]]] [[1, 2, 3]] = Inr (5, [[1]], [[1]], [[1]])"
    using t [where cmap="sample_cmap True"] aff(1) by blast
  have b: "get_update_jacobian_dependencies sample_kernels (sample_cmap False)
       0 5 [[1]] [[1]] [[1]] [[3]] [[[1, 2]]] [[1, 2, 3]]
     = get_update_jacobian_dependencies sample_kernels (sample_cmap False)
       0 7 [[1]] [[1]] [[1]] [[3]] [[[1, 2]]] [[1, 2, 3]]"
    using t [where cmap="sample_cmap False"] aff(2) by blast
  show ?thesis using aff a b sample_facet_jacobian by simp
qed

section \<open>Proofs: the geometry update under a zero displacement\<close>

lemma for_loop_preserves:
  assumes "\<And>i t t'. I t \<Longrightarrow> body i t = Inr t' \<Longrightarrow> I t'"
    and "I s" and "for_loop ns body s = Inr s'"
  shows "I s'"
  using assms(2,3)
proof (induction ns arbitrary: s)
  case Nil
  then show ?case by simp
next
  case (Cons i ns)
  then obtain t where t: "body i s = Inr t" "for_loop ns body t = Inr s'"
    by (cases "body i s") simp_all
  have "I t" using assms(1) Cons.prems(1) t(1) by blast
  then show ?case using Cons.IH t(2) by blast
qed

lemma add_double_zero_value: "is_zero z \<Longrightarrow> value_of (add_double x z) = value_of x"
  by (cases x; cases z) simp_all

lemma add_double_zero_same: "is_zero z \<Longrightarrow> x \<noteq> Neg_zero \<Longrightarrow> add_double x z = x"
  by (cases x; cases z) simp_all

lemma add_double_neg_zero:
  "is_zero z \<Longrightarrow> add_double Neg_zero z = Neg_zero \<or> add_double Neg_zero z = Pos_zero"
  by (cases z) simp_all

text \<open>
  A property that all dof values and all entries of the displacement vector have is kept
  by the gathering loops, and so is the length of the vector.
\<close>

lemma displacement_step_keeps:
  assumes z: "\<forall>v \<in> set u_data. Q v"
    and dx: "length dx = n \<and> (\<forall>d \<in> set dx. Q d)"
    and r: "displacement_step u_data bs dofs dofs_x i j dx = Inr dx'"
  shows "length dx' = n \<and> (\<forall>d \<in> set dx'. Q d)"
proof -
  obtain src dst v where
    v: "get u_data src = Inr v" and p: "put dx dst v = Inr dx'"
    using r by (auto simp: displacement_step_def and_then_def split: sum.splits)
  have "v \<in> set u_data"
    using v by (auto simp: get_def split: if_splits)
  then have "Q v" using z by simp
  moreover have "dx' = dx[nat dst := v]"
    using p by (auto simp: put_def split: if_splits)
  moreover have "set (dx[nat dst := v]) \<subseteq> insert v (set dx)"
    by (rule set_update_subset_insert)
  ultimately show ?thesis
    using dx by auto
qed

lemma displacement_cell_keeps:
  assumes z: "\<forall>v \<in> set (fn_array u). Q v"
    and dx: "length dx = n \<and> (\<forall>d \<in> set dx. Q d)"
    and r: "displacement_cell u m c dx = Inr dx'"
  shows "length dx' = n \<and> (\<forall>d \<in> set dx'. Q d)"
proof -
  obtain dofs dofs_x where
    l: "for_loop [0..<length dofs] (\<lambda>i.
          for_loop [0..<nat (dofmap_bs u)]
            (displacement_step (fn_array u) (dofmap_bs u) dofs dofs_x i)) dx = Inr dx'"
    using r by (auto simp: displacement_cell_def and_then_def split: sum.splits)
  have inner: "length t' = n \<and> (\<forall>d \<in> set t'. Q d)"
    if "length t = n \<and> (\<forall>d \<in> set t. Q d)"
      "for_loop [0..<nat (dofmap_bs u)]
         (displacement_step (fn_array u) (dofmap_bs u) dofs dofs_x i) t = Inr t'" for i t t'
    using that(2)
    by (rule for_loop_preserves [where I="\<lambda>t. length t = n \<and> (\<forall>d \<in> set t. Q d)", rotated 2])
      (use that(1) z displacement_step_keeps in blast)+
  show ?thesis
    using l
    by (rule for_loop_preserves [where I="\<lambda>t. length t = n \<and> (\<forall>d \<in> set t. Q d)", rotated 2])
      (use dx inner in blast)+
qed

lemma update_geometry_gathered:
  assumes z: "\<forall>v \<in> set (fn_array u). Q v" and q: "Q Pos_zero"
    and r: "update_geometry u m = Inr m'"
  shows "\<exists>dx. length dx = length (x_g m) \<and> (\<forall>d \<in> set dx. Q d)
            \<and> m' = m\<lparr>x_g := map2 add_double (x_g m) dx\<rparr>"
proof -
  obtain dx where
    l: "for_loop [0..<nat (num_cells m)] (displacement_cell u m)
          (replicate (length (x_g m)) Pos_zero) = Inr dx"
    and m': "m' = m\<lparr>x_g := map2 add_double (x_g m) dx\<rparr>"
    using r
    by (auto simp: update_geometry_def Let_def and_then_def split: if_splits sum.splits)
  have "length dx = length (x_g m) \<and> (\<forall>d \<in> set dx. Q d)"
    using l
    by (rule for_loop_preserves
          [where I="\<lambda>t. length t = length (x_g m) \<and> (\<forall>d \<in> set t. Q d)", rotated 2])
      (use z q displacement_cell_keeps in \<open>blast, simp\<close>)
  then show ?thesis using m' by blast
qed

lemma update_geometry_entries:
  assumes z: "\<forall>v \<in> set (fn_array u). Q v" and q: "Q Pos_zero"
    and r: "update_geometry u m = Inr m'"
  shows "m' = m\<lparr>x_g := x_g m'\<rparr> \<and> length (x_g m') = length (x_g m)
       \<and> (\<forall>k < length (x_g m). \<exists>d. Q d \<and> x_g m' ! k = add_double (x_g m ! k) d)"
proof -
  obtain dx where dx: "length dx = length (x_g m)" "\<forall>d \<in> set dx. Q d"
    and m': "m' = m\<lparr>x_g := map2 add_double (x_g m) dx\<rparr>"
    using update_geometry_gathered [OF z q r] by blast
  have "\<exists>d. Q d \<and> x_g m' ! k = add_double (x_g m ! k) d" if "k < length (x_g m)" for k
  proof -
    have "x_g m' ! k = add_double (x_g m ! k) (dx ! k)"
      using that dx(1) m' by simp
    moreover have "Q (dx ! k)" using that dx by simp
    ultimately show ?thesis by blast
  qed
  then show ?thesis using m' dx(1) by simp
qed

lemma displacement_cell_total:
  assumes c: "c < length (cell_dofs u)" "c < length (x_dofmap m)"
    and b: "\<forall>i < length (cell_dofs u ! c).
            i < length (x_dofmap m ! c)
          \<and> int32_ok (dofmap_bs u * (cell_dofs u ! c ! i))
          \<and> int32_ok (3 * (x_dofmap m ! c ! i))
          \<and> (\<forall>j < nat (dofmap_bs u).
                0 \<le> dofmap_bs u * (cell_dofs u ! c ! i) + int j
              \<and> dofmap_bs u * (cell_dofs u ! c ! i) + int j < int (length (fn_array u))
              \<and> dofmap_bs u * (cell_dofs u ! c ! i) + int j < 2 ^ 31
              \<and> 0 \<le> 3 * (x_dofmap m ! c ! i) + int j
              \<and> 3 * (x_dofmap m ! c ! i) + int j < int n
              \<and> 3 * (x_dofmap m ! c ! i) + int j < 2 ^ 31)"
    and len: "length dx = n"
  shows "\<exists>dx'. displacement_cell u m c dx = Inr dx' \<and> length dx' = n"
proof -
  let ?dofs = "cell_dofs u ! c" and ?nodes = "x_dofmap m ! c"
  have inner: "\<exists>t'. for_loop [0..<nat (dofmap_bs u)]
                 (displacement_step (fn_array u) (dofmap_bs u) ?dofs ?nodes i) t = Inr t'
               \<and> length t' = n"
    if i: "i < length ?dofs" and t: "length t = n" for i t
  proof (rule for_loop_upt_rule [where P="\<lambda>j t. length t = n"])
    show "length t = n" by (rule t)
    show "0 \<le> nat (dofmap_bs u)" by simp
    fix j and t :: "double list"
    assume "0 \<le> j" and j: "j < nat (dofmap_bs u)" and lt: "length t = n"
    have bi: "i < length ?nodes" "int32_ok (dofmap_bs u * (?dofs ! i))"
      "int32_ok (3 * (?nodes ! i))"
      using b i by simp_all
    have bj: "0 \<le> dofmap_bs u * (?dofs ! i) + int j"
      "dofmap_bs u * (?dofs ! i) + int j < int (length (fn_array u))"
      "dofmap_bs u * (?dofs ! i) + int j < 2 ^ 31"
      "0 \<le> 3 * (?nodes ! i) + int j"
      "3 * (?nodes ! i) + int j < int n"
      "3 * (?nodes ! i) + int j < 2 ^ 31"
      using b i j by simp_all
    have "displacement_step (fn_array u) (dofmap_bs u) ?dofs ?nodes i j t
          = Inr (t[nat (3 * (?nodes ! i) + int j)
                   := fn_array u ! nat (dofmap_bs u * (?dofs ! i) + int j)])"
      using bi bj i lt
      by (simp add: displacement_step_def get_def put_def int32_mul_def int32_add_def
          int32_range_def int32_ok_def)
    then show "\<exists>t'. displacement_step (fn_array u) (dofmap_bs u) ?dofs ?nodes i j t = Inr t'
                 \<and> length t' = n"
      using lt by simp
  qed
  have "\<exists>dx'. for_loop [0..<length ?dofs] (\<lambda>i.
          for_loop [0..<nat (dofmap_bs u)]
            (displacement_step (fn_array u) (dofmap_bs u) ?dofs ?nodes i)) dx = Inr dx'
        \<and> length dx' = n"
  proof (rule for_loop_upt_rule [where P="\<lambda>i t. length t = n"])
    show "length dx = n" by (rule len)
    show "0 \<le> length ?dofs" by simp
    fix i and t :: "double list"
    assume "0 \<le> i" and it: "i < length ?dofs" "length t = n"
    from it show "\<exists>t'. for_loop [0..<nat (dofmap_bs u)]
                 (displacement_step (fn_array u) (dofmap_bs u) ?dofs ?nodes i) t = Inr t'
               \<and> length t' = n"
      by (rule inner)
  qed
  then show ?thesis
    using c by (simp add: displacement_cell_def links_def get_def)
qed

lemma update_geometry_total:
  assumes "mesh_id m = mesh_id (fn_mesh u)"
    and "element_dof_layout u = create_dof_layout (geometry_cmap m)"
    and b: "displacement_in_bounds u m"
  shows "\<exists>m'. update_geometry u m = Inr m'"
proof -
  have "\<exists>dx. for_loop [0..<nat (num_cells m)] (displacement_cell u m)
               (replicate (length (x_g m)) Pos_zero) = Inr dx
             \<and> length dx = length (x_g m)"
  proof (rule for_loop_upt_rule [where P="\<lambda>c t. length t = length (x_g m)"])
    show "length (replicate (length (x_g m)) Pos_zero) = length (x_g m)" by simp
    show "0 \<le> nat (num_cells m)" by simp
    fix c and t :: "double list"
    assume "0 \<le> c" and c: "c < nat (num_cells m)" and t: "length t = length (x_g m)"
    show "\<exists>t'. displacement_cell u m c t = Inr t' \<and> length t' = length (x_g m)"
      using b c t unfolding displacement_in_bounds_def
      by (intro displacement_cell_total) auto
  qed
  then show ?thesis
    using assms(1,2) by (auto simp: update_geometry_def Let_def)
qed

text \<open>
  Claim C9, as stated, at an input on which it fails. The mesh is the one of two triangles
  with the first coordinate of node 0 stored as the negative zero; every dof value of the
  field is the positive zero. \<open>update_geometry\<close> writes \<^verbatim>\<open>coords[k] + dx[k]\<close> into every
  coordinate, and \<open>-0.0 + 0.0\<close> is \<open>+0.0\<close>: the stored coordinate changes its sign bit.
\<close>

theorem update_geometry_negative_zero:
  "list_all is_zero (fn_array zero_field)
   \<and> x_g signed_zero_mesh ! 0 = Neg_zero
   \<and> (\<exists>m'. update_geometry zero_field signed_zero_mesh = Inr m'
          \<and> x_g m' ! 0 = Pos_zero
          \<and> x_g m' \<noteq> x_g signed_zero_mesh)"
proof -
  have "update_geometry zero_field signed_zero_mesh
        = Inr (signed_zero_mesh\<lparr>x_g :=
            [Pos_zero, Pos_zero, Pos_zero, Nonzero 1, Pos_zero, Pos_zero,
             Pos_zero, Nonzero 1, Pos_zero, Nonzero 1, Nonzero 1, Pos_zero]\<rparr>)"
    by (simp add: update_geometry_def displacement_cell_def displacement_step_def links_def
        get_def put_def int32_mul_def int32_add_def int32_range_def zero_field_def
        signed_zero_mesh_def sample_cmap_def upt_rec [of 0] upt_rec [of 1] upt_rec [of 2]
        numeral_2_eq_2 numeral_3_eq_3)
  moreover have "x_g signed_zero_mesh ! 0 = Neg_zero"
    by (simp add: signed_zero_mesh_def)
  moreover have "list_all is_zero (fn_array zero_field)"
    by (simp add: zero_field_def)
  ultimately show ?thesis by (simp add: signed_zero_mesh_def)
qed

text \<open>
  Claim C9, amended. When every dof value of the displacement field is a zero (of either
  sign), a call of \<open>update_geometry\<close> that returns has changed nothing in the mesh but the
  coordinate array, which keeps its length; every coordinate denotes the number it
  denoted before; every coordinate other than a negative zero is the double it was; and
  a negative zero is a zero again, the positive one when all dof values are positive
  zeros. The call does return when the two assertions hold and the index expressions of
  the gathering loops are 32-bit integers inside their arrays.
\<close>

theorem update_geometry_zero_displacement:
  assumes "\<forall>v \<in> set (fn_array u). is_zero v"
  shows "(mesh_id m = mesh_id (fn_mesh u)
          \<and> element_dof_layout u = create_dof_layout (geometry_cmap m)
          \<and> displacement_in_bounds u m
          \<longrightarrow> (\<exists>m'. update_geometry u m = Inr m'))
       \<and> (\<forall>m'. update_geometry u m = Inr m' \<longrightarrow>
             m' = m\<lparr>x_g := x_g m'\<rparr>
           \<and> length (x_g m') = length (x_g m)
           \<and> (\<forall>k < length (x_g m).
                 value_of (x_g m' ! k) = value_of (x_g m ! k)
               \<and> (x_g m ! k \<noteq> Neg_zero \<longrightarrow> x_g m' ! k = x_g m ! k)
               \<and> (x_g m ! k = Neg_zero \<longrightarrow> x_g m' ! k = Neg_zero \<or> x_g m' ! k = Pos_zero)
               \<and> (x_g m ! k = Neg_zero \<and> (\<forall>v \<in> set (fn_array u). v = Pos_zero)
                    \<longrightarrow> x_g m' ! k = Pos_zero)))"
proof (rule conjI)
  show "mesh_id m = mesh_id (fn_mesh u)
          \<and> element_dof_layout u = create_dof_layout (geometry_cmap m)
          \<and> displacement_in_bounds u m
          \<longrightarrow> (\<exists>m'. update_geometry u m = Inr m')"
    using update_geometry_total [of m u] by blast
next
  have "m' = m\<lparr>x_g := x_g m'\<rparr>
           \<and> length (x_g m') = length (x_g m)
           \<and> (\<forall>k < length (x_g m).
                 value_of (x_g m' ! k) = value_of (x_g m ! k)
               \<and> (x_g m ! k \<noteq> Neg_zero \<longrightarrow> x_g m' ! k = x_g m ! k)
               \<and> (x_g m ! k = Neg_zero \<longrightarrow> x_g m' ! k = Neg_zero \<or> x_g m' ! k = Pos_zero)
               \<and> (x_g m ! k = Neg_zero \<and> (\<forall>v \<in> set (fn_array u). v = Pos_zero)
                    \<longrightarrow> x_g m' ! k = Pos_zero))"
    if r: "update_geometry u m = Inr m'" for m'
  proof -
    have e: "m' = m\<lparr>x_g := x_g m'\<rparr>" "length (x_g m') = length (x_g m)"
      and z: "\<And>k. k < length (x_g m)
                \<Longrightarrow> \<exists>d. is_zero d \<and> x_g m' ! k = add_double (x_g m ! k) d"
      using update_geometry_entries [where Q=is_zero, OF assms _ r] by simp_all
    have "value_of (x_g m' ! k) = value_of (x_g m ! k)
        \<and> (x_g m ! k \<noteq> Neg_zero \<longrightarrow> x_g m' ! k = x_g m ! k)
        \<and> (x_g m ! k = Neg_zero \<longrightarrow> x_g m' ! k = Neg_zero \<or> x_g m' ! k = Pos_zero)
        \<and> (x_g m ! k = Neg_zero \<and> (\<forall>v \<in> set (fn_array u). v = Pos_zero)
              \<longrightarrow> x_g m' ! k = Pos_zero)"
      if k: "k < length (x_g m)" for k
    proof -
      obtain d where d: "is_zero d" "x_g m' ! k = add_double (x_g m ! k) d"
        using z [OF k] by blast
      have "x_g m' ! k = Pos_zero"
        if "x_g m ! k = Neg_zero \<and> (\<forall>v \<in> set (fn_array u). v = Pos_zero)"
      proof -
        have "\<exists>d. d = Pos_zero \<and> x_g m' ! k = add_double (x_g m ! k) d"
          using update_geometry_entries [where Q="\<lambda>v. v = Pos_zero" and u=u and m=m and m'=m']
            that r k by simp
        then show ?thesis using that by auto
      qed
      then show ?thesis
        using d add_double_zero_value [of d "x_g m ! k"] add_double_zero_same [of d "x_g m ! k"]
          add_double_neg_zero [of d]
        by auto
    qed
    then show ?thesis using e by blast
  qed
  then show "\<forall>m'. update_geometry u m = Inr m' \<longrightarrow>
             m' = m\<lparr>x_g := x_g m'\<rparr>
           \<and> length (x_g m') = length (x_g m)
           \<and> (\<forall>k < length (x_g m).
                 value_of (x_g m' ! k) = value_of (x_g m ! k)
               \<and> (x_g m ! k \<noteq> Neg_zero \<longrightarrow> x_g m' ! k = x_g m ! k)
               \<and> (x_g m ! k = Neg_zero \<longrightarrow> x_g m' ! k = Neg_zero \<or> x_g m' ! k = Pos_zero)
               \<and> (x_g m ! k = Neg_zero \<and> (\<forall>v \<in> set (fn_array u). v = Pos_zero)
                    \<longrightarrow> x_g m' ! k = Pos_zero))"
    by blast
qed

lemma sample_displacement_in_bounds: "displacement_in_bounds zero_field signed_zero_mesh"
  by (simp add: displacement_in_bounds_def int32_ok_def zero_field_def signed_zero_mesh_def
      eval_nat_numeral atLeast0_lessThan_Suc)

theorem update_geometry_zero_displacement_witness:
  "list_all is_zero (fn_array zero_field)
   \<and> displacement_in_bounds zero_field signed_zero_mesh
   \<and> x_g signed_zero_mesh
       = [Neg_zero, Pos_zero, Pos_zero, Nonzero 1, Pos_zero, Pos_zero,
          Pos_zero, Nonzero 1, Pos_zero, Nonzero 1, Nonzero 1, Pos_zero]
   \<and> (\<exists>m'. update_geometry zero_field signed_zero_mesh = Inr m'
          \<and> length (x_g m') = 12
          \<and> x_g m' ! 0 = Pos_zero
          \<and> x_g m' ! 3 = Nonzero 1
          \<and> value_of (x_g m' ! 0) = value_of (x_g signed_zero_mesh ! 0))"
proof -
  have z: "\<forall>v \<in> set (fn_array zero_field). is_zero v"
    and p: "\<forall>v \<in> set (fn_array zero_field). v = Pos_zero"
    by (simp_all add: zero_field_def)
  have pre: "mesh_id signed_zero_mesh = mesh_id (fn_mesh zero_field)
      \<and> element_dof_layout zero_field = create_dof_layout (geometry_cmap signed_zero_mesh)"
    by (simp add: zero_field_def signed_zero_mesh_def sample_cmap_def)
  have x: "x_g signed_zero_mesh
       = [Neg_zero, Pos_zero, Pos_zero, Nonzero 1, Pos_zero, Pos_zero,
          Pos_zero, Nonzero 1, Pos_zero, Nonzero 1, Nonzero 1, Pos_zero]"
    by (simp add: signed_zero_mesh_def)
  note t = update_geometry_zero_displacement [OF z, of signed_zero_mesh]
  obtain m' where m': "update_geometry zero_field signed_zero_mesh = Inr m'"
    using t pre sample_displacement_in_bounds by blast
  have len: "length (x_g m') = 12" using t m' x by simp
  have k0: "x_g m' ! 0 = Pos_zero \<and> value_of (x_g m' ! 0) = value_of (x_g signed_zero_mesh ! 0)"
    using t m' p x by simp
  have "x_g signed_zero_mesh ! 3 \<noteq> Neg_zero \<longrightarrow> x_g m' ! 3 = x_g signed_zero_mesh ! 3"
    using t m' x by simp
  then have k3: "x_g m' ! 3 = Nonzero 1" using x by simp
  have "list_all is_zero (fn_array zero_field)" by (simp add: zero_field_def)
  then show ?thesis using sample_displacement_in_bounds x m' len k0 k3 by blast
qed

section \<open>Proofs: packing a constant field on an element with scalar blocks\<close>

lemma for_loop_single: "for_loop [0..<Suc 0] body s = body 0 s"
  by (simp split: sum.splits)

lemma get_int_Inr: "get xs (int n) = Inr v \<longleftrightarrow> n < length xs \<and> v = xs ! n"
  by (auto simp: get_def)

lemma put_int_Inr: "put xs (int n) v = Inr ys \<longleftrightarrow> n < length xs \<and> ys = xs[n := v]"
  by (auto simp: put_def)

lemma accumulate_step_effect:
  assumes const: "\<forall>v \<in> set data. v = c"
    and run: "accumulate_step data cstride bs vs i pos_v basis q k l cs = Inr cs'"
  shows "\<exists>b. basis q l = Inr b
           \<and> cstride * i + q * (bs * vs) + k + l < length cs
           \<and> cs' = cs[cstride * i + q * (bs * vs) + k + l
                        := cs ! (cstride * i + q * (bs * vs) + k + l) + b * c]"
proof -
  let ?idx = "cstride * i + q * (bs * vs) + k + l"
  obtain b v old where b: "basis q l = Inr b"
    and v: "get data (pos_v + int k) = Inr v"
    and old: "get cs (int ?idx) = Inr old"
    and p: "put cs (int ?idx) (old + b * v) = Inr cs'"
    using run by (auto simp: accumulate_step_def Let_def and_then_def split: sum.splits)
  have "v \<in> set data" using v by (auto simp: get_def split: if_splits)
  then have "v = c" using const by simp
  moreover have "?idx < length cs" "old = cs ! ?idx"
    using old unfolding get_int_Inr by simp_all
  moreover have "cs' = cs[?idx := old + b * v]"
    using p unfolding put_int_Inr by simp
  ultimately show ?thesis using b by simp
qed

lemma block_loop:
  fixes cs :: "real list"
  assumes const: "\<forall>v \<in> set data. v = c"
    and run: "for_loop [0..<bs]
                (\<lambda>k. for_loop [0..<1] (accumulate_step data cstride bs 1 i pos_v basis q k)) cs
              = Inr cs'"
    and bs: "0 < bs"
  shows "(\<exists>b. basis q 0 = Inr b)
       \<and> length cs' = length cs
       \<and> (\<forall>j < length cs. cs' ! j
            = cs ! j + (if cstride * i + q * bs \<le> j \<and> j < cstride * i + q * bs + bs
                        then projr (basis q 0) * c else 0))"
proof -
  let ?base = "cstride * i + q * bs"
  define P where "P n t \<longleftrightarrow>
      (0 < n \<longrightarrow> (\<exists>b. basis q 0 = Inr b))
    \<and> length t = length cs
    \<and> (\<forall>j < length cs. t ! j
          = cs ! j + (if ?base \<le> j \<and> j < ?base + n then projr (basis q 0) * c else 0))"
    for n and t :: "real list"
  have "P bs cs'"
  proof (rule for_loop_upt_partial [where a=0 and b=bs and P=P])
    show "P 0 cs" by (simp add: P_def)
    show "0 \<le> bs" by simp
    show "for_loop [0..<bs]
            (\<lambda>k. for_loop [0..<1] (accumulate_step data cstride bs 1 i pos_v basis q k)) cs
          = Inr cs'" by (rule run)
    fix k and t t' :: "real list"
    assume "0 \<le> k" "k < bs" and Pk: "P k t"
      and r: "for_loop [0..<1] (accumulate_step data cstride bs 1 i pos_v basis q k) t = Inr t'"
    have "accumulate_step data cstride bs 1 i pos_v basis q k 0 t = Inr t'"
      using r by (simp split: sum.splits)
    from accumulate_step_effect [OF const this]
    obtain b where b: "basis q 0 = Inr b" and idx: "?base + k < length t"
      and t': "t' = t[?base + k := t ! (?base + k) + b * c]"
      by auto
    have pb: "projr (basis q 0) = b" using b by simp
    show "P (Suc k) t'"
      unfolding P_def
    proof (intro conjI allI impI)
      show "\<exists>b. basis q 0 = Inr b" using b by blast
      show "length t' = length cs" using t' Pk by (simp add: P_def)
      fix j assume j: "j < length cs"
      have tj: "t ! j = cs ! j + (if ?base \<le> j \<and> j < ?base + k then b * c else 0)"
        using Pk j pb by (simp add: P_def)
      have lt: "length t = length cs" using Pk by (simp add: P_def)
      show "t' ! j = cs ! j
              + (if ?base \<le> j \<and> j < ?base + Suc k then projr (basis q 0) * c else 0)"
      proof (cases "j = ?base + k")
        case True
        then show ?thesis using t' tj idx pb by simp
      next
        case False
        then show ?thesis using t' tj idx pb lt j by (auto simp: nth_list_update)
      qed
    qed
  qed
  then show ?thesis using bs by (simp add: P_def)
qed

lemma div_in_block:
  fixes j :: nat
  assumes "base + q * bs \<le> j" "j < base + q * bs + bs"
  shows "(j - base) div bs = q"
proof -
  define r where "r = j - base - q * bs"
  have r: "r < bs" "j - base = r + q * bs" using assms by (simp_all add: r_def)
  then show ?thesis by simp
qed

lemma point_loop:
  fixes cs :: "real list"
  assumes const: "\<forall>v \<in> set data. v = c"
    and bs: "0 < bs"
    and run: "for_loop [0..<np]
                (\<lambda>q. for_loop [0..<bs]
                  (\<lambda>k. for_loop [0..<1] (accumulate_step data cstride bs 1 i pos_v basis q k))) cs
              = Inr cs'"
  shows "(\<forall>q < np. \<exists>b. basis q 0 = Inr b)
       \<and> length cs' = length cs
       \<and> (\<forall>j < length cs. cs' ! j
            = cs ! j + (if cstride * i \<le> j \<and> j < cstride * i + np * bs
                        then projr (basis ((j - cstride * i) div bs) 0) * c else 0))"
proof -
  let ?base = "cstride * i"
  define P where "P n t \<longleftrightarrow>
      (\<forall>q < n. \<exists>b. basis q 0 = Inr b)
    \<and> length t = length cs
    \<and> (\<forall>j < length cs. t ! j
          = cs ! j + (if ?base \<le> j \<and> j < ?base + n * bs
                      then projr (basis ((j - ?base) div bs) 0) * c else 0))"
    for n and t :: "real list"
  have "P np cs'"
  proof (rule for_loop_upt_partial [where a=0 and b=np and P=P])
    show "P 0 cs" by (simp add: P_def)
    show "0 \<le> np" by simp
    show "for_loop [0..<np]
            (\<lambda>q. for_loop [0..<bs]
              (\<lambda>k. for_loop [0..<1] (accumulate_step data cstride bs 1 i pos_v basis q k))) cs
          = Inr cs'" by (rule run)
    fix q and t t' :: "real list"
    assume "0 \<le> q" "q < np" and Pq: "P q t"
      and r: "for_loop [0..<bs]
                (\<lambda>k. for_loop [0..<1] (accumulate_step data cstride bs 1 i pos_v basis q k)) t
              = Inr t'"
    have lt: "length t = length cs" using Pq by (simp add: P_def)
    from block_loop [OF const r bs]
    have b: "\<exists>b. basis q 0 = Inr b" and lt': "length t' = length t"
      and t': "\<forall>j < length t. t' ! j
            = t ! j + (if ?base + q * bs \<le> j \<and> j < ?base + q * bs + bs
                       then projr (basis q 0) * c else 0)"
      by auto
    show "P (Suc q) t'"
      unfolding P_def
    proof (intro conjI allI impI)
      fix q' assume "q' < Suc q"
      then show "\<exists>b. basis q' 0 = Inr b"
        using Pq b by (cases "q' = q") (auto simp: P_def)
    next
      show "length t' = length cs" using lt lt' by simp
    next
      fix j assume j: "j < length cs"
      have tj: "t ! j = cs ! j + (if ?base \<le> j \<and> j < ?base + q * bs
                      then projr (basis ((j - ?base) div bs) 0) * c else 0)"
        using Pq j by (simp add: P_def)
      have t'j: "t' ! j = t ! j + (if ?base + q * bs \<le> j \<and> j < ?base + q * bs + bs
                       then projr (basis q 0) * c else 0)"
        using t' j lt by simp
      show "t' ! j = cs ! j + (if ?base \<le> j \<and> j < ?base + Suc q * bs
                      then projr (basis ((j - ?base) div bs) 0) * c else 0)"
      proof (cases "?base + q * bs \<le> j \<and> j < ?base + q * bs + bs")
        case True
        then have "(j - ?base) div bs = q" by (intro div_in_block) simp_all
        then show ?thesis using True tj t'j by simp
      next
        case False
        then show ?thesis using tj t'j by auto
      qed
    qed
  qed
  then show ?thesis by (simp add: P_def)
qed

lemma accumulate_cell_effect:
  fixes cs :: "real list"
  assumes const: "\<forall>v \<in> set data. v = c"
    and bs: "0 < bs"
    and run: "accumulate_cell data cstride bs 1 np i dofs basis cs = Inr cs'"
  shows "(\<forall>d < length dofs. \<forall>q < np. \<exists>b. basis q d 0 = Inr b)
       \<and> length cs' = length cs
       \<and> (\<forall>j < length cs. cs' ! j
            = cs ! j + (if cstride * i \<le> j \<and> j < cstride * i + np * bs
                        then c * (\<Sum>d < length dofs. projr (basis ((j - cstride * i) div bs) d 0))
                        else 0))"
proof -
  let ?base = "cstride * i"
  let ?body = "\<lambda>d c1.
       and_then (get dofs (int d)) (\<lambda>dof.
       let pos_v = int bs * dof in
       for_loop [0..<np] (\<lambda>q.
         for_loop [0..<bs] (\<lambda>k.
           for_loop [0..<1]
             (accumulate_step data cstride bs 1 i pos_v (\<lambda>q l. basis q d l) q k))) c1)"
  define P where "P n t \<longleftrightarrow>
      (\<forall>d < n. \<forall>q < np. \<exists>b. basis q d 0 = Inr b)
    \<and> length t = length cs
    \<and> (\<forall>j < length cs. t ! j
          = cs ! j + (if ?base \<le> j \<and> j < ?base + np * bs
                      then c * (\<Sum>d < n. projr (basis ((j - ?base) div bs) d 0)) else 0))"
    for n and t :: "real list"
  have "P (length dofs) cs'"
  proof (rule for_loop_upt_partial [where a=0 and b="length dofs" and P=P and body="?body"])
    show "P 0 cs" by (simp add: P_def)
    show "0 \<le> length dofs" by simp
    show "for_loop [0..<length dofs] ?body cs = Inr cs'"
      using run by (simp add: accumulate_cell_def)
    fix d and t t' :: "real list"
    assume "0 \<le> d" "d < length dofs" and Pd: "P d t" and r: "?body d t = Inr t'"
    obtain dof where
      r': "for_loop [0..<np] (\<lambda>q.
         for_loop [0..<bs] (\<lambda>k.
           for_loop [0..<1]
             (accumulate_step data cstride bs 1 i (int bs * dof) (\<lambda>q l. basis q d l) q k))) t
         = Inr t'"
      using r by (auto simp: and_then_def Let_def split: sum.splits)
    have lt: "length t = length cs" using Pd by (simp add: P_def)
    from point_loop [OF const bs r']
    have b: "\<forall>q < np. \<exists>b. basis q d 0 = Inr b" and lt': "length t' = length t"
      and t': "\<forall>j < length t. t' ! j
            = t ! j + (if ?base \<le> j \<and> j < ?base + np * bs
                       then projr (basis ((j - ?base) div bs) d 0) * c else 0)"
      by auto
    show "P (Suc d) t'"
      unfolding P_def
    proof (intro conjI allI impI)
      fix d' q assume "d' < Suc d" "q < np"
      then show "\<exists>b. basis q d' 0 = Inr b"
        using Pd b by (cases "d' = d") (auto simp: P_def)
    next
      show "length t' = length cs" using lt lt' by simp
    next
      fix j assume j: "j < length cs"
      have "t ! j = cs ! j + (if ?base \<le> j \<and> j < ?base + np * bs
                      then c * (\<Sum>d < d. projr (basis ((j - ?base) div bs) d 0)) else 0)"
        using Pd j by (simp add: P_def)
      moreover have "t' ! j = t ! j + (if ?base \<le> j \<and> j < ?base + np * bs
                       then projr (basis ((j - ?base) div bs) d 0) * c else 0)"
        using t' j lt by simp
      ultimately show "t' ! j = cs ! j + (if ?base \<le> j \<and> j < ?base + np * bs
                      then c * (\<Sum>d < Suc d. projr (basis ((j - ?base) div bs) d 0)) else 0)"
        by (simp add: algebra_simps)
    qed
  qed
  then show ?thesis by (simp add: P_def)
qed

lemma at4_Inr:
  assumes "at4 t e q d l = Inr b"
  shows "0 \<le> e \<and> nat e < length t \<and> q < length (t ! nat e)
         \<and> d < length (t ! nat e ! q) \<and> l < length (t ! nat e ! q ! d)
         \<and> b = t ! nat e ! q ! d ! l"
  using assms
  by (auto simp: at4_def at3_def and_then_def get_def split: sum.splits if_splits)

lemma entity_loop:
  fixes rbv :: table4
  assumes const: "\<forall>v \<in> set data. v = c"
    and bs: "0 < bs"
    and cstride: "cstride = bs * np"
    and dofs: "\<forall>dofs \<in> set dof_lists. dofs \<noteq> []
                 \<and> (\<forall>t \<in> set rbv. \<forall>rs \<in> set t. length rs = length dofs)"
    and pou: "\<forall>t \<in> set rbv. \<forall>rs \<in> set t. sum_list (map (\<lambda>row. row ! 0) rs) = 1"
    and run: "for_loop [0..<n] (\<lambda>i cs.
                and_then (cell_info_fn i) (\<lambda>(cell, entity_index).
                and_then (links dof_lists cell) (\<lambda>dofs.
                accumulate_cell data cstride bs 1 np i dofs (at4 rbv entity_index) cs)))
                (replicate (n * cstride) 0) = Inr cs'"
  shows "length cs' = n * cstride \<and> (\<forall>x \<in> set cs'. x = c)"
proof -
  let ?body = "\<lambda>i cs.
                and_then (cell_info_fn i) (\<lambda>(cell, entity_index).
                and_then (links dof_lists cell) (\<lambda>dofs.
                accumulate_cell data cstride bs 1 np i dofs (at4 rbv entity_index) cs))"
  define P where "P k t \<longleftrightarrow>
      length t = n * cstride
    \<and> (\<forall>j < k * cstride. j < n * cstride \<longrightarrow> t ! j = c)
    \<and> (\<forall>j. k * cstride \<le> j \<and> j < n * cstride \<longrightarrow> t ! j = 0)"
    for k and t :: "real list"
  have "P n cs'"
  proof (rule for_loop_upt_partial [where a=0 and b=n and P=P and body="?body"])
    show "P 0 (replicate (n * cstride) 0)" by (simp add: P_def)
    show "0 \<le> n" by simp
    show "for_loop [0..<n] ?body (replicate (n * cstride) 0) = Inr cs'" by (rule run)
    fix i and t t' :: "real list"
    assume "0 \<le> i" and i: "i < n" and Pi: "P i t" and r: "?body i t = Inr t'"
    obtain cell e dfs where l: "links dof_lists cell = Inr dfs"
      and a: "accumulate_cell data cstride bs 1 np i dfs (at4 rbv e) t = Inr t'"
      using r by (auto simp: and_then_def split: sum.splits prod.splits)
    have mem: "dfs \<in> set dof_lists"
      using l by (auto simp: links_def get_def split: if_splits)
    then have ne: "dfs \<noteq> []"
      and rows: "\<forall>t \<in> set rbv. \<forall>rs \<in> set t. length rs = length dfs"
      using dofs by auto
    have lt: "length t = n * cstride" using Pi by (simp add: P_def)
    from accumulate_cell_effect [OF const bs a]
    have ok: "\<forall>d < length dfs. \<forall>q < np. \<exists>b. at4 rbv e q d 0 = Inr b"
      and lt': "length t' = length t"
      and t': "\<forall>j < length t. t' ! j
            = t ! j + (if cstride * i \<le> j \<and> j < cstride * i + np * bs
                       then c * (\<Sum>d < length dfs. projr (at4 rbv e ((j - cstride * i) div bs) d 0))
                       else 0)"
      by auto
    have one: "(\<Sum>d < length dfs. projr (at4 rbv e q d 0)) = 1" if q: "q < np" for q
    proof -
      have "\<exists>b. at4 rbv e q 0 0 = Inr b" using ok q ne by simp
      then have e: "0 \<le> e" "nat e < length rbv" "q < length (rbv ! nat e)"
        using at4_Inr by blast+
      let ?rs = "rbv ! nat e ! q"
      have rs: "?rs \<in> set (rbv ! nat e)" "rbv ! nat e \<in> set rbv"
        using e by simp_all
      then have len: "length ?rs = length dfs" and s: "sum_list (map (\<lambda>row. row ! 0) ?rs) = 1"
        using rows pou by blast+
      have "projr (at4 rbv e q d 0) = ?rs ! d ! 0" if d: "d < length dfs" for d
      proof -
        obtain b where "at4 rbv e q d 0 = Inr b" using ok q d by blast
        then show ?thesis using at4_Inr [of rbv e q d 0 b] by simp
      qed
      then have "(\<Sum>d < length dfs. projr (at4 rbv e q d 0)) = (\<Sum>d < length ?rs. ?rs ! d ! 0)"
        using len by simp
      also have "\<dots> = sum_list (map (\<lambda>row. row ! 0) ?rs)"
        by (simp add: sum_list_sum_nth atLeast0LessThan)
      finally show ?thesis using s by simp
    qed
    show "P (Suc i) t'"
      unfolding P_def
    proof (intro conjI allI impI)
      show "length t' = n * cstride" using lt lt' by simp
    next
      fix j assume j: "j < Suc i * cstride" "j < n * cstride"
      have t'j: "t' ! j = t ! j + (if cstride * i \<le> j \<and> j < cstride * i + np * bs
                       then c * (\<Sum>d < length dfs. projr (at4 rbv e ((j - cstride * i) div bs) d 0))
                       else 0)"
        using t' j lt by simp
      show "t' ! j = c"
      proof (cases "j < i * cstride")
        case True
        then have "t ! j = c" using Pi j by (simp add: P_def)
        then show ?thesis using t'j True by (simp add: mult.commute)
      next
        case False
        then have blk: "cstride * i \<le> j" "j < cstride * i + np * bs"
          using j cstride by (simp_all add: mult.commute)
        have "t ! j = 0" using Pi False j by (simp add: P_def)
        moreover have "(j - cstride * i) div bs < np"
          using blk bs by (simp add: less_mult_imp_div_less)
        ultimately show ?thesis using t'j blk one by simp
      qed
    next
      fix j assume j: "Suc i * cstride \<le> j \<and> j < n * cstride"
      then have "t ! j = 0" using Pi by (simp add: P_def)
      moreover have "\<not> j < cstride * i + np * bs"
        using j cstride by (simp add: mult.commute)
      ultimately show "t' ! j = 0" using t' j lt by simp
    qed
  qed
  then have len: "length cs' = n * cstride" and all: "\<forall>j < n * cstride. cs' ! j = c"
    by (simp_all add: P_def)
  have "\<forall>x \<in> set cs'. x = c"
    using len all by (auto simp: in_set_conv_nth)
  then show ?thesis using len by simp
qed

lemma pack_without_transformations:
  assumes nt: "\<not> needs_dof_transformations (fn_element coeff)"
    and run: "pack_coefficient_quadrature ks make_rule coeff q_degree integral active_entities
              = Inr (coefficients, cstride)"
  defines "m \<equiv> fn_mesh coeff"
  defines "q_rule \<equiv> make_rule (cell_type m) q_degree
             (if integral = Cell then topology_dim m else topology_dim m - 1)"
  defines "vs \<equiv> reference_value_size (fn_element coeff) div block_size (fn_element coeff)"
  defines "bs \<equiv> nat (dofmap_bs coeff)"
  defines "np \<equiv> length (weights_ref q_rule ! 0)"
  defines "rbv \<equiv> map (\<lambda>q_ent. tabulate (fn_element coeff) q_ent 0 ! 0) (points_ref q_rule)"
  shows "\<exists>cell_info_fn.
           0 < bs \<and> cstride = vs * bs * np
         \<and> for_loop [0..<length active_entities] (\<lambda>i cs.
               and_then (cell_info_fn i) (\<lambda>(cell, entity_index).
               and_then (links (cell_dofs coeff) cell) (\<lambda>dofs.
               accumulate_cell (fn_array coeff) cstride bs vs np i dofs
                 (at4 rbv entity_index) cs)))
               (replicate (length active_entities * vs * bs * np) 0) = Inr coefficients"
proof -
  have i: "integral = Cell \<or> integral = Exterior_facet"
    using run by (cases integral) (simp_all add: pack_coefficient_quadrature_def Let_def)
  have q: "(case integral of
           Cell \<Rightarrow> Inr (make_rule (cell_type m) q_degree (topology_dim m))
         | Exterior_facet \<Rightarrow> Inr (make_rule (cell_type m) q_degree (topology_dim m - 1))
         | _ \<Rightarrow> Inl (Runtime_error ''Unsupported integral type'')) = Inr q_rule"
    using i by (auto simp: q_rule_def)
  show ?thesis
    using run nt
    unfolding pack_coefficient_quadrature_def Let_def m_def [symmetric] q
    by (auto simp: and_then_def vs_def bs_def np_def rbv_def split: if_splits sum.splits)
qed

text \<open>
  The packer on elements whose blocks are scalar (one value component per block), without
  dof transformations: when all dof values are \<open>c\<close>, every cell has at least one dof and as
  many dofs as the tabulation has basis functions, and the tabulated basis functions sum
  to one at every point, then every entry of the coefficient vector that a run returns is
  \<open>c\<close>, and the vector has one stride per active entity.
\<close>

lemma pack_constant_scalar_blocks:
  fixes coeff :: "real fem_function" and make_rule :: "nat \<Rightarrow> int \<Rightarrow> int \<Rightarrow> quadrature_rule"
    and q_degree :: int and integral :: integral_type
  defines "m \<equiv> fn_mesh coeff"
  defines "q_rule \<equiv> make_rule (cell_type m) q_degree
             (if integral = Cell then topology_dim m else topology_dim m - 1)"
  defines "rbv \<equiv> map (\<lambda>q_ent. tabulate (fn_element coeff) q_ent 0 ! 0) (points_ref q_rule)"
  assumes nt: "\<not> needs_dof_transformations (fn_element coeff)"
    and vs: "reference_value_size (fn_element coeff) div block_size (fn_element coeff) = 1"
    and const: "\<forall>v \<in> set (fn_array coeff). v = c"
    and dofs: "\<forall>dofs \<in> set (cell_dofs coeff). dofs \<noteq> []
                 \<and> (\<forall>t \<in> set rbv. \<forall>rs \<in> set t. length rs = length dofs)"
    and pou: "\<forall>t \<in> set rbv. \<forall>rs \<in> set t. sum_list (map (\<lambda>row. row ! 0) rs) = 1"
    and run: "pack_coefficient_quadrature ks make_rule coeff q_degree integral active_entities
              = Inr (coefficients, cstride)"
  shows "length coefficients = length active_entities * cstride
       \<and> (\<forall>x \<in> set coefficients. x = c)"
proof -
  let ?bs = "nat (dofmap_bs coeff)"
  let ?np = "length (weights_ref q_rule ! 0)"
  obtain cell_info_fn where bs: "0 < ?bs" and cs: "cstride = ?bs * ?np"
    and loop: "for_loop [0..<length active_entities] (\<lambda>i cs.
               and_then (cell_info_fn i) (\<lambda>(cell, entity_index).
               and_then (links (cell_dofs coeff) cell) (\<lambda>dofs.
               accumulate_cell (fn_array coeff) cstride ?bs 1 ?np i dofs
                 (at4 rbv entity_index) cs)))
               (replicate (length active_entities * cstride) 0) = Inr coefficients"
    using pack_without_transformations [OF nt run] vs
    unfolding m_def q_rule_def rbv_def by (auto simp: mult.assoc)
  show ?thesis
    using const bs cs dofs pou loop by (rule entity_loop)
qed

lemma sample_pack_constant:
  "pack_coefficient_quadrature sample_kernels one_point_rule
     ((sample_field [5, 5, 5, 5, 5, 5, 5, 5])\<lparr>fn_element := linear_vector_element\<rparr>) 1 Cell [0, 1]
   = Inr ([5, 5, 5, 5], 2)"
  by code_simp

lemma sample_pack_constant_facets:
  "pack_coefficient_quadrature sample_kernels one_point_rule
     ((sample_field [5, 5, 5, 5, 5, 5, 5, 5])\<lparr>fn_element := linear_vector_element\<rparr>) 1
     Exterior_facet [0, 4]
   = Inr ([5, 5, 5, 5], 2)"
  by code_simp

section \<open>Proofs: the packers\<close>

lemma find_index_member:
  "v \<in> set xs \<Longrightarrow> find_index xs v < length xs \<and> xs ! find_index xs v = v"
  by (induction xs) auto

lemma find_index_absent: "v \<notin> set xs \<Longrightarrow> find_index xs v = length xs"
  by (induction xs) auto

text \<open>
  Claim C6. For a facet integral the function that resolves the active entities is
  \<open>fetch_facet\<close>. On a mesh whose two connectivities agree, an active facet index that is
  a facet of the mesh with exactly one adjacent cell passes the assertion and is
  translated to that cell and to a position inside the cell's list of facets, at which the
  list holds the facet.
\<close>

theorem fetch_facet_boundary:
  assumes "connectivity_consistent facet_cells cell_facet_lists"
    and "i < length active_entities"
    and "0 \<le> active_entities ! i" "active_entities ! i < int (length facet_cells)"
    and "length (facet_cells ! nat (active_entities ! i)) = 1"
  shows "get_cell_info Exterior_facet active_entities facet_cells cell_facet_lists
           = Inr (fetch_facet active_entities facet_cells cell_facet_lists)
       \<and> (\<exists>cell local_index.
             fetch_facet active_entities facet_cells cell_facet_lists i = Inr (cell, local_index)
           \<and> facet_cells ! nat (active_entities ! i) = [cell]
           \<and> 0 \<le> cell \<and> cell < int (length cell_facet_lists)
           \<and> 0 \<le> local_index \<and> local_index < int (length (cell_facet_lists ! nat cell))
           \<and> cell_facet_lists ! nat cell ! nat local_index = active_entities ! i)"
proof -
  let ?facet = "active_entities ! i"
  let ?cells = "facet_cells ! nat ?facet"
  obtain cell where cells: "?cells = [cell]"
    using assms(5) by (cases ?cells) simp_all
  have f: "nat ?facet \<in> {0..<length facet_cells}"
    using assms(3,4) by simp
  have "cell \<in> set ?cells" using cells by simp
  then have c: "0 \<le> cell" "cell < int (length cell_facet_lists)"
    and mem: "int (nat ?facet) \<in> set (cell_facet_lists ! nat cell)"
    using assms(1) f unfolding connectivity_consistent_def by blast+
  have mem': "?facet \<in> set (cell_facet_lists ! nat cell)"
    using mem assms(3) by simp
  let ?li = "find_index (cell_facet_lists ! nat cell) ?facet"
  have run: "fetch_facet active_entities facet_cells cell_facet_lists i = Inr (cell, int ?li)"
    using assms(2,3,4) cells c by (simp add: fetch_facet_def links_def get_def)
  show ?thesis
    using run cells c find_index_member [OF mem']
    by (simp add: get_cell_info_def)
qed

theorem fetch_facet_boundary_witness:
  "connectivity_consistent (f_to_c sample_mesh) (c_to_f sample_mesh)
   \<and> (0 :: nat) < length [0, 4 :: int]
   \<and> length (f_to_c sample_mesh ! nat ([0, 4] ! 0)) = 1
   \<and> fetch_facet [0, 4] (f_to_c sample_mesh) (c_to_f sample_mesh) 0 = Inr (0, 2)
   \<and> c_to_f sample_mesh ! 0 ! 2 = 0"
proof -
  have cc: "connectivity_consistent (f_to_c sample_mesh) (c_to_f sample_mesh)"
    by (simp add: connectivity_consistent_def sample_mesh_def eval_nat_numeral
        atLeast0_lessThan_Suc)
  have h: "(0 :: nat) < length [0, 4 :: int]" "(0 :: int) \<le> [0, 4] ! 0"
    "[0, 4] ! 0 < int (length (f_to_c sample_mesh))"
    "length (f_to_c sample_mesh ! nat ([0, 4] ! 0)) = 1"
    by (simp_all add: sample_mesh_def)
  obtain cell local_index where
    r: "fetch_facet [0, 4] (f_to_c sample_mesh) (c_to_f sample_mesh) 0 = Inr (cell, local_index)"
    and c: "f_to_c sample_mesh ! nat ([0, 4] ! 0) = [cell]"
    and l: "c_to_f sample_mesh ! nat cell ! nat local_index = [0, 4] ! 0"
      "0 \<le> local_index" "local_index < int (length (c_to_f sample_mesh ! nat cell))"
    using fetch_facet_boundary [OF cc h] by blast
  have cell: "cell = 0" using c by (simp add: sample_mesh_def)
  have "local_index = 2"
  proof -
    have "nat local_index < 3" using l(3) cell by (simp add: sample_mesh_def)
    then consider "nat local_index = 0" | "nat local_index = 1" | "nat local_index = 2"
      by linarith
    then show ?thesis
      using l(1,2) cell by cases (simp_all add: sample_mesh_def)
  qed
  then show ?thesis
    using cc h r cell by (simp add: sample_mesh_def)
qed

lemma fetch_facet_interior:
  "fetch_facet [2] (f_to_c sample_mesh) (c_to_f sample_mesh) 0 = Inl Assertion_failed"
  by (simp add: fetch_facet_def links_def get_def sample_mesh_def)

text \<open>
  Claim C8. On a mesh whose coordinate map is not affine, \<open>pack_circumradius\<close> ends in the
  runtime error of its first statement, for every list of active facets and whatever the
  quadrature rule, the kernels and the circumradius function would compute: it returns no
  value.
\<close>

theorem pack_circumradius_nonaffine:
  assumes "\<not> is_affine (geometry_cmap m)"
  shows "pack_circumradius ks make_rule compute_circumradius m active_facets
           = Inl (Runtime_error ''Non-affine circumradius is not implemented'')
       \<and> (\<forall>r. pack_circumradius ks make_rule compute_circumradius m active_facets \<noteq> Inr r)"
  using assms by (simp add: pack_circumradius_def)

theorem pack_circumradius_nonaffine_witness:
  "\<not> is_affine (geometry_cmap (sample_mesh\<lparr>geometry_cmap := sample_cmap False\<rparr>))
   \<and> pack_circumradius sample_kernels one_point_rule (\<lambda>m detJ coordinate_dofs. detJ)
       (sample_mesh\<lparr>geometry_cmap := sample_cmap False\<rparr>) [(0, 2), (1, 0)]
     = Inl (Runtime_error ''Non-affine circumradius is not implemented'')"
proof -
  have n: "\<not> is_affine (geometry_cmap (sample_mesh\<lparr>geometry_cmap := sample_cmap False\<rparr>))"
    by (simp add: sample_cmap_def)
  show ?thesis
    using pack_circumradius_nonaffine [OF n, of sample_kernels one_point_rule
        "\<lambda>m detJ coordinate_dofs. detJ" "[(0, 2), (1, 0)]"] n
    by blast
qed

text \<open>
  On the two triangles with the affine element of the triangle the packer returns one
  value per active facet, here the determinants \<open>1\<close> and \<open>-1\<close> of the two Jacobians. With a
  coordinate element whose first-order tabulation has fewer than \<open>tdim + 1\<close> rows, the view
  \<^verbatim>\<open>xt::xrange(1, tdim + 1)\<close> of the first derivatives leaves the table.
\<close>

lemma pack_circumradius_affine_sample:
  "pack_circumradius product_kernels facet_midpoint_rule (\<lambda>m detJ coordinate_dofs. detJ)
     (sample_mesh\<lparr>geometry_cmap := triangle_cmap\<rparr>) [(0, 2), (1, 0)] = Inr ([1, - 1], 1)"
  by code_simp

lemma pack_circumradius_short_tabulation:
  "pack_circumradius sample_kernels one_point_rule (\<lambda>m detJ coordinate_dofs. detJ)
     sample_mesh [(0, 2), (1, 0)] = Inl Out_of_bounds"
  by code_simp

text \<open>
  Claim C1, at an input on which the code departs from it. The field lives on an element
  with two blocks and two value components per block, without dof transformations; all of
  its dof values are 1, and in both value components the basis functions sum to one at the
  quadrature point, so the field is the constant 1 in each of its four components. The
  stride reserves four entries for the point, yet the entry of block \<open>k\<close> and component
  \<open>l\<close> is accumulated at offset \<open>k + l\<close>: the offsets of \<open>(0, 1)\<close> and \<open>(1, 0)\<close> coincide
  and the last entry is never written. On elements with one value component per block the
  offsets are those of the blocks, and constants are reproduced
  (\<open>pack_constant_scalar_blocks\<close>).
\<close>

theorem pack_constant_blocked_vector:
  "pack_coefficient_quadrature sample_kernels one_point_rule blocked_vector_field 1 Cell [0, 1]
   = Inr ([1, 2, 1, 0, 1, 2, 1, 0], 4)"
  by code_simp

end
